theory Spec2Isabelle
  imports Main
begin

section \<open>JavaScript values\<close>

text \<open>
  Both programs exchange JSON: the webhook body parsed by \<^verbatim>\<open>express.json()\<close>, the
  messages on the WebSocket, the provider's reply read from \<^verbatim>\<open>response.data\<close>.
  A value is what \<^verbatim>\<open>JSON.parse\<close> returns, with \<open>JUndefined\<close> added for the result
  of reading a property that is absent. Numbers are modelled by the integers: no
  operation of either program does arithmetic on a JSON number. An object is the list
  of its properties, read by key.
\<close>

datatype json =
    JUndefined
  | JNull
  | JBool bool
  | JNum int
  | JStr string
  | JArr "json list"
  | JObj "(string \<times> json) list"

datatype js_error = TypeError

text \<open>\<^verbatim>\<open>v === undefined || v === null\<close>: the values a property cannot be read from.\<close>

fun nullish :: "json \<Rightarrow> bool" where
  "nullish JUndefined = True"
| "nullish JNull = True"
| "nullish _ = False"

text \<open>The test of \<^verbatim>\<open>if (v)\<close> and of \<^verbatim>\<open>v || d\<close>.\<close>

fun truthy :: "json \<Rightarrow> bool" where
  "truthy JUndefined = False"
| "truthy JNull = False"
| "truthy (JBool b) = b"
| "truthy (JNum n) = (n \<noteq> 0)"
| "truthy (JStr s) = (s \<noteq> [])"
| "truthy (JArr _) = True"
| "truthy (JObj _) = True"

text \<open>
  \<^verbatim>\<open>v.name\<close> for the property names the two programs read (\<^verbatim>\<open>object\<close>, \<^verbatim>\<open>entry\<close>,
  \<^verbatim>\<open>changes\<close>, \<^verbatim>\<open>field\<close>, \<^verbatim>\<open>value\<close>, \<^verbatim>\<open>statuses\<close>, \<^verbatim>\<open>messages\<close>, \<^verbatim>\<open>id\<close>,
  \<^verbatim>\<open>status\<close>, \<^verbatim>\<open>type\<close>, \<^verbatim>\<open>messageId\<close>): reading from \<^verbatim>\<open>undefined\<close> or \<^verbatim>\<open>null\<close>
  throws a TypeError; an object gives the property or \<^verbatim>\<open>undefined\<close>; arrays, strings,
  numbers and booleans have no property of these names.
\<close>

fun get_prop :: "json \<Rightarrow> string \<Rightarrow> js_error + json" where
  "get_prop JUndefined name = Inl TypeError"
| "get_prop JNull name = Inl TypeError"
| "get_prop (JObj ps) name = Inr (case map_of ps name of None \<Rightarrow> JUndefined | Some v \<Rightarrow> v)"
| "get_prop _ name = Inr JUndefined"

text \<open>
  \<^verbatim>\<open>a === b\<close>, which is also the key comparison of a \<^verbatim>\<open>Map\<close> on these values.
  Primitive values are compared by value. Arrays and objects are compared by reference,
  and every array or object here comes out of its own \<^verbatim>\<open>JSON.parse\<close>, so two of them
  are never the same reference.
\<close>

fun strict_eq :: "json \<Rightarrow> json \<Rightarrow> bool" where
  "strict_eq (JArr _) _ = False"
| "strict_eq (JObj _) _ = False"
| "strict_eq a b = (a = b)"

text \<open>\<^verbatim>\<open>String(n)\<close> for an integer.\<close>

fun show_nat :: "nat \<Rightarrow> string" where
  "show_nat n =
     (if n < 10 then [char_of (48 + n)]
      else show_nat (n div 10) @ [char_of (48 + n mod 10)])"

declare show_nat.simps [simp del]

definition show_int :: "int \<Rightarrow> string" where
  "show_int n = (if n < 0 then CHR ''-'' # show_nat (nat (- n)) else show_nat (nat n))"

fun join_comma :: "string list \<Rightarrow> string" where
  "join_comma [] = []"
| "join_comma [s] = s"
| "join_comma (s # t # ss) = s @ CHR '','' # join_comma (t # ss)"

text \<open>
  The conversion of a value to a property key (\<^verbatim>\<open>ToString\<close>): a string is its own
  key, an array is its elements joined by commas with \<^verbatim>\<open>null\<close> and \<^verbatim>\<open>undefined\<close>
  printed empty, an object is \<^verbatim>\<open>[object Object]\<close>.
\<close>

fun to_string :: "json \<Rightarrow> string" where
  "to_string JUndefined = ''undefined''"
| "to_string JNull = ''null''"
| "to_string (JBool b) = (if b then ''true'' else ''false'')"
| "to_string (JNum n) = show_int n"
| "to_string (JStr s) = s"
| "to_string (JArr xs) = join_comma (map (\<lambda>x. if nullish x then [] else to_string x) xs)"
| "to_string (JObj _) = ''[object Object]''"

text \<open>
  Defining a property on an object literal under construction: an existing property
  keeps its place and takes the new value, a new one is added at the end.
\<close>

fun obj_put :: "(string \<times> json) list \<Rightarrow> string \<Rightarrow> json \<Rightarrow> (string \<times> json) list" where
  "obj_put [] k v = [(k, v)]"
| "obj_put ((k', v') # ps) k v =
     (if k' = k then (k', v) # ps else (k', v') # obj_put ps k v)"

text \<open>
  What the receiver's \<^verbatim>\<open>JSON.parse\<close> returns for the text \<^verbatim>\<open>JSON.stringify\<close> wrote:
  a property whose value is \<^verbatim>\<open>undefined\<close> is left out of an object, and an
  \<^verbatim>\<open>undefined\<close> element of an array is written \<^verbatim>\<open>null\<close>.
\<close>

fun wire :: "json \<Rightarrow> json" where
  "wire (JObj ps) =
     JObj (map (\<lambda>(k, v). (k, wire v)) (filter (\<lambda>(k, v). v \<noteq> JUndefined) ps))"
| "wire (JArr xs) = JArr (map (\<lambda>x. if x = JUndefined then JNull else wire x) xs)"
| "wire v = v"

section \<open>The server: status store and broadcast channel (\<^verbatim>\<open>server.js\<close>)\<close>

subsection \<open>The status store\<close>

text \<open>
  \<^verbatim>\<open>const messageStatuses = new Map()\<close>. A \<^verbatim>\<open>Map\<close> keeps its entries in insertion
  order; \<^verbatim>\<open>set\<close> on a key that is present replaces the value in place.
\<close>

type_synonym js_map = "(json \<times> json) list"

fun map_set :: "js_map \<Rightarrow> json \<Rightarrow> json \<Rightarrow> js_map" where
  "map_set [] k v = [(k, v)]"
| "map_set ((k', v') # m) k v =
     (if strict_eq k' k then (k', v) # m else (k', v') # map_set m k v)"

text \<open>\<^verbatim>\<open>Object.fromEntries(messageStatuses)\<close>\<close>

definition from_entries :: "js_map \<Rightarrow> (string \<times> json) list" where
  "from_entries m = foldl (\<lambda>ps (k, v). obj_put ps (to_string k) v) [] m"

definition object_fromEntries :: "js_map \<Rightarrow> json" where
  "object_fromEntries m = JObj (from_entries m)"

subsection \<open>Observers\<close>

text \<open>
  An observer is one WebSocket of \<^verbatim>\<open>wss.clients\<close>: its connection handle, its
  \<^verbatim>\<open>readyState\<close> (0 connecting, 1 open, 2 closing, 3 closed) and the messages that
  were sent to it, oldest first, each as the value the receiver parses.
\<close>

record observer =
  handle :: nat
  readyState :: nat
  inbox :: "json list"

text \<open>\<^verbatim>\<open>ws.send(JSON.stringify(msg))\<close>\<close>

definition ws_send :: "observer \<Rightarrow> json \<Rightarrow> observer" where
  "ws_send ws msg = ws\<lparr>inbox := inbox ws @ [wire msg]\<rparr>"

record server =
  messageStatuses :: js_map
  wss_clients :: "observer list"

text \<open>
  \<^verbatim>\<open>wss.on('connection', (ws) => ...)\<close>. The ws library has put the new socket, open,
  into \<^verbatim>\<open>wss.clients\<close> when it calls the handler.
\<close>

definition on_connection :: "server \<Rightarrow> nat \<Rightarrow> server" where
  "on_connection s h =
     (let ws = \<lparr>handle = h, readyState = 1, inbox = []\<rparr>;
          allStatuses = object_fromEntries (messageStatuses s)
      in s\<lparr>wss_clients := wss_clients s @
             [ws_send ws (JObj [(''type'', JStr ''initial''), (''statuses'', allStatuses)])]\<rparr>)"

text \<open>
  The ws library on the close of a socket: its \<^verbatim>\<open>readyState\<close> becomes 3 and it
  leaves \<^verbatim>\<open>wss.clients\<close>. The handler of \<^verbatim>\<open>server.js\<close> only logs.
\<close>

definition on_close :: "server \<Rightarrow> nat \<Rightarrow> server" where
  "on_close s h = s\<lparr>wss_clients := filter (\<lambda>c. handle c \<noteq> h) (wss_clients s)\<rparr>"

text \<open>\<^verbatim>\<open>function broadcastStatusUpdate(messageId, status)\<close>\<close>

definition broadcastStatusUpdate :: "observer list \<Rightarrow> json \<Rightarrow> json \<Rightarrow> observer list" where
  "broadcastStatusUpdate cs messageId status =
     (let message = JObj [(''type'', JStr ''status_update''),
                          (''messageId'', messageId), (''status'', status)]
      in map (\<lambda>client. if readyState client = 1 then ws_send client message else client) cs)"

subsection \<open>Callback ingestion: \<^verbatim>\<open>app.post('/webhook', ...)\<close>\<close>

text \<open>
  A callback that throws ends every enclosing \<^verbatim>\<open>forEach\<close>; what it wrote before stays
  written. A callback therefore returns the state it leaves and the exception, if any.
\<close>

type_synonym 's thrown = "'s \<times> js_error option"

fun forEach :: "('s \<Rightarrow> json \<Rightarrow> 's thrown) \<Rightarrow> 's \<Rightarrow> json list \<Rightarrow> 's thrown" where
  "forEach f s [] = (s, None)"
| "forEach f s (x # xs) =
     (case f s x of
        (s', Some e) \<Rightarrow> (s', Some e)
      | (s', None) \<Rightarrow> forEach f s' xs)"

text \<open>
  \<^verbatim>\<open>v.forEach(f)\<close>: only an array has the method; on \<^verbatim>\<open>undefined\<close> and \<^verbatim>\<open>null\<close> the
  read of \<^verbatim>\<open>forEach\<close> throws, on any other value the call of \<^verbatim>\<open>undefined\<close> does
  (a property \<^verbatim>\<open>forEach\<close> of a parsed object is data, not a function).
\<close>

fun call_forEach :: "('s \<Rightarrow> json \<Rightarrow> 's thrown) \<Rightarrow> 's \<Rightarrow> json \<Rightarrow> 's thrown" where
  "call_forEach f s (JArr xs) = forEach f s xs"
| "call_forEach f s _ = (s, Some TypeError)"

text \<open>\<^verbatim>\<open>v?.forEach(f)\<close>\<close>

definition opt_forEach :: "('s \<Rightarrow> json \<Rightarrow> 's thrown) \<Rightarrow> 's \<Rightarrow> json \<Rightarrow> 's thrown" where
  "opt_forEach f s v = (if nullish v then (s, None) else call_forEach f s v)"

text \<open>Lines 98 to 109: the callback of \<^verbatim>\<open>value.statuses.forEach\<close>.\<close>

definition status_callback :: "server \<Rightarrow> json \<Rightarrow> server thrown" where
  "status_callback s status =
     (case get_prop status ''id'' of
        Inl e \<Rightarrow> (s, Some e)
      | Inr messageId \<Rightarrow>
          (case get_prop status ''status'' of
             Inl e \<Rightarrow> (s, Some e)
           | Inr statusType \<Rightarrow>
               (s\<lparr>messageStatuses := map_set (messageStatuses s) messageId statusType,
                  wss_clients := broadcastStatusUpdate (wss_clients s) messageId statusType\<rparr>,
                None)))"

text \<open>Lines 114 to 116: an inbound user message is logged.\<close>

definition message_callback :: "server \<Rightarrow> json \<Rightarrow> server thrown" where
  "message_callback s message = (s, None)"

text \<open>Lines 92 to 119: the callback of \<^verbatim>\<open>entry.changes?.forEach\<close>.\<close>

definition change_callback :: "server \<Rightarrow> json \<Rightarrow> server thrown" where
  "change_callback s change =
     (case get_prop change ''field'' of
        Inl e \<Rightarrow> (s, Some e)
      | Inr field \<Rightarrow>
          if field = JStr ''messages'' then
            (case get_prop change ''value'' of
               Inl e \<Rightarrow> (s, Some e)
             | Inr val \<Rightarrow>
                 (case get_prop val ''statuses'' of
                    Inl e \<Rightarrow> (s, Some e)
                  | Inr statuses \<Rightarrow>
                      (case (if truthy statuses then call_forEach status_callback s statuses
                             else (s, None)) of
                         (s1, Some e) \<Rightarrow> (s1, Some e)
                       | (s1, None) \<Rightarrow>
                           (case get_prop val ''messages'' of
                              Inl e \<Rightarrow> (s1, Some e)
                            | Inr messages \<Rightarrow>
                                if truthy messages
                                then call_forEach message_callback s1 messages
                                else (s1, None)))))
          else (s, None))"

text \<open>Lines 91 to 120: the callback of \<^verbatim>\<open>body.entry?.forEach\<close>.\<close>

definition entry_callback :: "server \<Rightarrow> json \<Rightarrow> server thrown" where
  "entry_callback s entry =
     (case get_prop entry ''changes'' of
        Inl e \<Rightarrow> (s, Some e)
      | Inr changes \<Rightarrow> opt_forEach change_callback s changes)"

record response =
  status_code :: nat
  sent :: string

text \<open>
  \<^verbatim>\<open>app.post('/webhook', (req, res) => ...)\<close> on the parsed body: the server it leaves
  and the response. The \<^verbatim>\<open>catch\<close> answers 500 whatever was thrown inside the \<^verbatim>\<open>try\<close>.
\<close>

definition webhook_post :: "server \<Rightarrow> json \<Rightarrow> server \<times> response" where
  "webhook_post s body =
     (case get_prop body ''object'' of
        Inl e \<Rightarrow> (s, \<lparr>status_code = 500, sent = ''Internal Server Error''\<rparr>)
      | Inr obj \<Rightarrow>
          if obj = JStr ''whatsapp_business_account'' then
            (case get_prop body ''entry'' of
               Inl e \<Rightarrow> (s, \<lparr>status_code = 500, sent = ''Internal Server Error''\<rparr>)
             | Inr entry \<Rightarrow>
                 (case opt_forEach entry_callback s entry of
                    (s', Some e) \<Rightarrow> (s', \<lparr>status_code = 500, sent = ''Internal Server Error''\<rparr>)
                  | (s', None) \<Rightarrow> (s', \<lparr>status_code = 200, sent = ''EVENT_RECEIVED''\<rparr>)))
          else (s, \<lparr>status_code = 404, sent = ''Not Found''\<rparr>))"

text \<open>
  \<^verbatim>\<open>app.get('/api/statuses', ...)\<close>: the object the caller parses out of the body
  \<^verbatim>\<open>res.json(allStatuses)\<close> wrote.
\<close>

definition api_statuses :: "server \<Rightarrow> json" where
  "api_statuses s = wire (object_fromEntries (messageStatuses s))"

subsection \<open>Vocabulary of the store's properties\<close>

text \<open>
  A value that \<^verbatim>\<open>JSON.parse\<close> can return: \<^verbatim>\<open>undefined\<close> occurs nowhere in it, and
  no object has two properties of one name.
\<close>

fun parsed :: "json \<Rightarrow> bool" where
  "parsed JUndefined = False"
| "parsed (JArr xs) = list_all parsed xs"
| "parsed (JObj ps) = (distinct (map fst ps) \<and> list_all (\<lambda>p. parsed (snd p)) ps)"
| "parsed _ = True"

text \<open>The identifier and the state a status notification carries; absent is \<^verbatim>\<open>undefined\<close>.\<close>

definition field_of :: "string \<Rightarrow> json \<Rightarrow> json" where
  "field_of name v = (case get_prop v name of Inl e \<Rightarrow> JUndefined | Inr x \<Rightarrow> x)"

text \<open>
  A status notification as the provider sends it: a parsed object whose \<^verbatim>\<open>id\<close> is a
  string (the provider's message identifier).
\<close>

fun is_string :: "json \<Rightarrow> bool" where
  "is_string (JStr _) = True"
| "is_string _ = False"

definition notification :: "json \<Rightarrow> bool" where
  "notification n = (parsed n \<and> \<not> nullish n \<and> is_string (field_of ''id'' n))"

text \<open>
  The last state written for identifier \<open>i\<close> by a sequence of notifications, oldest
  first; \<open>None\<close> when none of them names \<open>i\<close>.
\<close>

fun last_written :: "json list \<Rightarrow> string \<Rightarrow> json option" where
  "last_written [] i = None"
| "last_written (n # ns) i =
     (case last_written ns i of
        Some v \<Rightarrow> Some v
      | None \<Rightarrow> if field_of ''id'' n = JStr i then Some (field_of ''status'' n) else None)"

text \<open>A store whose keys are all strings, and the write one notification makes.\<close>

definition str_keys :: "js_map \<Rightarrow> bool" where
  "str_keys m = list_all (\<lambda>(k, v). is_string k) m"

definition write_of :: "js_map \<Rightarrow> json \<Rightarrow> js_map" where
  "write_of m n = map_set m (field_of ''id'' n) (field_of ''status'' n)"

text \<open>A notification that also carries a state.\<close>

definition status_record :: "json \<Rightarrow> bool" where
  "status_record n = (notification n \<and> field_of ''status'' n \<noteq> JUndefined)"

text \<open>The string identifiers a sequence of notifications names, oldest first.\<close>

fun id_strings :: "json list \<Rightarrow> string list" where
  "id_strings [] = []"
| "id_strings (n # ns) =
     (case field_of ''id'' n of JStr i \<Rightarrow> i # id_strings ns | _ \<Rightarrow> id_strings ns)"

subsection \<open>Vocabulary of the ingestion properties\<close>

text \<open>A body the handler recognises: \<^verbatim>\<open>body.object === 'whatsapp_business_account'\<close>.\<close>

definition recognized :: "json \<Rightarrow> bool" where
  "recognized body =
     (\<not> nullish body \<and> field_of ''object'' body = JStr ''whatsapp_business_account'')"

fun is_array :: "json \<Rightarrow> bool" where
  "is_array (JArr _) = True"
| "is_array _ = False"

text \<open>
  The envelopes the traversal passes over, writing nothing and throwing nothing: no
  \<^verbatim>\<open>entry\<close>; or entries (objects) with no \<^verbatim>\<open>changes\<close>; or changes (objects) that are
  of another field than \<^verbatim>\<open>messages\<close>, or that carry a \<^verbatim>\<open>value\<close> with no \<^verbatim>\<open>statuses\<close>
  (absent, \<^verbatim>\<open>null\<close> or an empty list) and whose \<^verbatim>\<open>messages\<close>, if any, is a list.
  A \<^verbatim>\<open>messages\<close> change is among them only when its \<^verbatim>\<open>value\<close> is there: line 97
  reads \<^verbatim>\<open>value.statuses\<close> with no guard on \<^verbatim>\<open>value\<close>.
\<close>

definition value_passed_over :: "json \<Rightarrow> bool" where
  "value_passed_over val =
     (\<not> nullish val \<and>
      (\<not> truthy (field_of ''statuses'' val) \<or> field_of ''statuses'' val = JArr []) \<and>
      (\<not> truthy (field_of ''messages'' val) \<or> is_array (field_of ''messages'' val)))"

definition change_passed_over :: "json \<Rightarrow> bool" where
  "change_passed_over change =
     (\<not> nullish change \<and>
      (field_of ''field'' change \<noteq> JStr ''messages'' \<or>
       value_passed_over (field_of ''value'' change)))"

definition entry_passed_over :: "json \<Rightarrow> bool" where
  "entry_passed_over entry =
     (\<not> nullish entry \<and>
      (case field_of ''changes'' entry of
         JUndefined \<Rightarrow> True
       | JNull \<Rightarrow> True
       | JArr changes \<Rightarrow> list_all change_passed_over changes
       | _ \<Rightarrow> False))"

definition envelope_passed_over :: "json \<Rightarrow> bool" where
  "envelope_passed_over body =
     (case field_of ''entry'' body of
        JUndefined \<Rightarrow> True
      | JNull \<Rightarrow> True
      | JArr entries \<Rightarrow> list_all entry_passed_over entries
      | _ \<Rightarrow> False)"

definition internal_server_error :: response where
  "internal_server_error = \<lparr>status_code = 500, sent = ''Internal Server Error''\<rparr>"

definition event_received :: response where
  "event_received = \<lparr>status_code = 200, sent = ''EVENT_RECEIVED''\<rparr>"

definition not_found :: response where
  "not_found = \<lparr>status_code = 404, sent = ''Not Found''\<rparr>"

section \<open>The client: dispatch sequencer and reconciler (\<^verbatim>\<open>App.tsx\<close>)\<close>

subsection \<open>State\<close>

text \<open>
  \<^verbatim>\<open>Record<number, T>\<close>: an object whose keys are item indices. \<^verbatim>\<open>Object.entries\<close> and
  \<^verbatim>\<open>Object.values\<close> list such keys in ascending order, so the object is the list of
  its entries in that order. The type \<^verbatim>\<open>MessageStatus\<close> is erased when the program
  runs (\<^verbatim>\<open>status as MessageStatus\<close> checks nothing), so a state is the value it is.
\<close>

type_synonym js_record = "(nat \<times> json) list"

text \<open>\<^verbatim>\<open>{ ...prev, [index]: v }\<close>\<close>

fun rec_set :: "js_record \<Rightarrow> nat \<Rightarrow> json \<Rightarrow> js_record" where
  "rec_set [] k v = [(k, v)]"
| "rec_set ((k', v') # r) k v =
     (if k = k' then (k, v) # r
      else if k < k' then (k, v) # (k', v') # r
      else (k', v') # rec_set r k v)"

text \<open>\<^verbatim>\<open>r[index]\<close>\<close>

definition rec_get :: "js_record \<Rightarrow> nat \<Rightarrow> json" where
  "rec_get r k = (case map_of r k of None \<Rightarrow> JUndefined | Some v \<Rightarrow> v)"

text \<open>\<^verbatim>\<open>interface ExtractedChallan\<close>\<close>

record challan =
  mobile :: string
  data :: json

text \<open>
  The state of \<^verbatim>\<open>App\<close> that dispatch and reconciliation read and write
  (\<^verbatim>\<open>messageStatuses\<close> is named \<open>messageStatuses_app\<close> here, the server's store having
  the name). \<^verbatim>\<open>fileName\<close> and \<^verbatim>\<open>isProcessing\<close> only drive the upload widget.
\<close>

record app =
  extractedChallans :: "challan list"
  messageStatuses_app :: js_record
  messageIds :: js_record
  showDetails :: bool

record config =
  PHONE_NUMBER_ID :: string
  ACCESS_TOKEN :: string

subsection \<open>The reconciler: \<^verbatim>\<open>ws.onmessage\<close>\<close>

text \<open>
  The handler on the text of a frame, given as what \<^verbatim>\<open>JSON.parse\<close> makes of it
  (\<open>None\<close> when it throws). Whatever throws inside the \<^verbatim>\<open>try\<close> is logged, and the
  state stays. The handler reads the \<^verbatim>\<open>messageIds\<close> of the latest render, the effect
  being set up again whenever \<^verbatim>\<open>messageIds\<close> changes.
\<close>

definition ws_onmessage :: "app \<Rightarrow> json option \<Rightarrow> app" where
  "ws_onmessage st event_data =
     (case event_data of
        None \<Rightarrow> st
      | Some message \<Rightarrow>
          (case get_prop message ''type'' of
             Inl e \<Rightarrow> st
           | Inr type \<Rightarrow>
               if type = JStr ''status_update'' then
                 (let messageId = field_of ''messageId'' message;
                      status = field_of ''status'' message
                  in case find (\<lambda>(_, id). strict_eq id messageId) (messageIds st) of
                       None \<Rightarrow> st
                     | Some (index, _) \<Rightarrow>
                         st\<lparr>messageStatuses_app :=
                              rec_set (messageStatuses_app st) index status\<rparr>)
               else if type = JStr ''initial'' then st
               else st))"

subsection \<open>The dispatch sequencer\<close>

text \<open>
  What a run does to the outside, in order: a request to the provider (its mode, its
  destination, the milliseconds until its promise settles), an \<^verbatim>\<open>alert\<close>, a
  \<^verbatim>\<open>confirm\<close>, and a \<^verbatim>\<open>setTimeout\<close> awaited (the milliseconds until it resolved).
  The text of a request's body is left out.
\<close>

datatype send_mode = Template | Text

datatype effect =
    Post send_mode string nat
  | Alert string
  | Confirm string
  | Sleep nat

text \<open>
  What the outside does to one dispatch: \<^verbatim>\<open>axios.post\<close> rejects, or resolves with
  \<^verbatim>\<open>response.data\<close>; and the milliseconds by which the pacing timer that follows the
  item is late.
\<close>

datatype outcome = Rejected | Accepted json

record attempt =
  latency :: nat
  outcome :: outcome

record item_env =
  templated :: attempt
  freetext :: attempt
  timer_lag :: nat

text \<open>\<^verbatim>\<open>v[0]\<close> on a value that is not \<^verbatim>\<open>undefined\<close> or \<^verbatim>\<open>null\<close>.\<close>

fun elem0 :: "json \<Rightarrow> json" where
  "elem0 (JArr (x # _)) = x"
| "elem0 (JStr (c # _)) = JStr [c]"
| "elem0 (JObj ps) = (case map_of ps ''0'' of None \<Rightarrow> JUndefined | Some v \<Rightarrow> v)"
| "elem0 _ = JUndefined"

text \<open>\<^verbatim>\<open>response.data.messages?.[0]?.id\<close>\<close>

definition message_id :: "json \<Rightarrow> js_error + json" where
  "message_id response_data =
     (case get_prop response_data ''messages'' of
        Inl e \<Rightarrow> Inl e
      | Inr messages \<Rightarrow>
          if nullish messages then Inr JUndefined
          else if nullish (elem0 messages) then Inr JUndefined
          else get_prop (elem0 messages) ''id'')"

text \<open>\<^verbatim>\<open>setMessageStatuses(prev => ({ ...prev, [index]: v }))\<close> and \<^verbatim>\<open>setMessageIds\<close> alike.\<close>

definition set_status :: "app \<Rightarrow> nat \<Rightarrow> json \<Rightarrow> app" where
  "set_status st index v = st\<lparr>messageStatuses_app := rec_set (messageStatuses_app st) index v\<rparr>"

definition set_id :: "app \<Rightarrow> nat \<Rightarrow> json \<Rightarrow> app" where
  "set_id st index v = st\<lparr>messageIds := rec_set (messageIds st) index v\<rparr>"

text \<open>
  The body of either \<^verbatim>\<open>try\<close> from its \<^verbatim>\<open>await axios.post\<close> on (lines 247 to 277 and
  284 to 310, the same statements): \<open>None\<close> when it throws, by the rejected request
  or by the read of the identifier.
\<close>

definition try_send :: "outcome \<Rightarrow> app \<Rightarrow> nat \<Rightarrow> app option" where
  "try_send reply st index =
     (case reply of
        Rejected \<Rightarrow> None
      | Accepted response_data \<Rightarrow>
          (case message_id response_data of
             Inl e \<Rightarrow> None
           | Inr messageId \<Rightarrow>
               Some (set_status
                       (if truthy messageId then set_id st index messageId else st)
                       index (JStr ''sent''))))"

text \<open>
  \<^verbatim>\<open>const sendWhatsAppMessage = async (mobile, challanData, index) => ...\<close>; its
  first parameter is \<open>mobile_no\<close> here, \<open>mobile\<close> being the field of a challan.
\<close>

definition sendWhatsAppMessage ::
  "config \<Rightarrow> item_env \<Rightarrow> string \<Rightarrow> json \<Rightarrow> nat \<Rightarrow> app \<Rightarrow> app \<times> effect list" where
  "sendWhatsAppMessage cfg env mobile_no challanData index st =
     (if PHONE_NUMBER_ID cfg = [] \<or> ACCESS_TOKEN cfg = [] then
        (st, [Alert ''Please configure WhatsApp API credentials in .env file''])
      else
        let st1 = set_status st index (JStr ''sending'');
            post1 = Post Template mobile_no (latency (templated env))
        in case try_send (outcome (templated env)) st1 index of
             Some st2 \<Rightarrow> (st2, [post1])
           | None \<Rightarrow>
               (let post2 = Post Text mobile_no (latency (freetext env))
                in case try_send (outcome (freetext env)) st1 index of
                     Some st2 \<Rightarrow> (st2, [post1, post2])
                   | None \<Rightarrow>
                       (set_status st1 index (JStr ''error''),
                        [post1, post2,
                         Alert (''Failed to send message to '' @ mobile_no @
                                ''. Check console for details.'')])))"

text \<open>
  The \<^verbatim>\<open>for\<close> loop of \<^verbatim>\<open>sendAllMessages\<close> from index \<open>i\<close> on, over the
  \<^verbatim>\<open>extractedChallans\<close> of the render the click came from.
\<close>

function send_loop ::
  "config \<Rightarrow> (nat \<Rightarrow> item_env) \<Rightarrow> challan list \<Rightarrow> nat \<Rightarrow> app \<Rightarrow> app \<times> effect list" where
  "send_loop cfg envs cs i st =
     (if i < length cs then
        (case sendWhatsAppMessage cfg (envs i) (mobile (cs ! i)) (data (cs ! i)) i st of
           (st1, sent1) \<Rightarrow>
             (case send_loop cfg envs cs (i + 1) st1 of
                (st2, rest) \<Rightarrow>
                  (st2,
                   sent1 @
                   (if i < length cs - 1 then [Sleep (1000 + timer_lag (envs i))] else []) @
                   rest)))
      else (st, []))"
  by pat_completeness auto
termination
  by (relation "measure (\<lambda>(cfg, envs, cs, i, st). length cs - i)") auto

declare send_loop.simps [simp del]

text \<open>\<^verbatim>\<open>const sendAllMessages = async () => ...\<close>; \<open>confirmed\<close> is the operator's answer.\<close>

definition sendAllMessages ::
  "config \<Rightarrow> bool \<Rightarrow> (nat \<Rightarrow> item_env) \<Rightarrow> app \<Rightarrow> app \<times> effect list" where
  "sendAllMessages cfg confirmed envs st =
     (if length (extractedChallans st) = 0 then (st, [Alert ''No challans to send''])
      else if PHONE_NUMBER_ID cfg = [] \<or> ACCESS_TOKEN cfg = [] then
        (st, [Alert ''Please configure WhatsApp API credentials in .env file''])
      else
        let question = Confirm (''Send WhatsApp messages to '' @
                                show_nat (length (extractedChallans st)) @ '' numbers?'')
        in if \<not> confirmed then (st, [question])
           else (case send_loop cfg envs (extractedChallans st) 0 st of
                   (st', trace) \<Rightarrow> (st', question # trace)))"

subsection \<open>The triggers\<close>

text \<open>\<^verbatim>\<open>const status = messageStatuses[index] || 'idle'\<close>\<close>

definition status_at :: "app \<Rightarrow> nat \<Rightarrow> json" where
  "status_at st index =
     (if truthy (rec_get (messageStatuses_app st) index)
      then rec_get (messageStatuses_app st) index else JStr ''idle'')"

text \<open>Line 518, the \<^verbatim>\<open>disabled\<close> of an item's send button.\<close>

definition send_btn_disabled :: "json \<Rightarrow> bool" where
  "send_btn_disabled status =
     (status = JStr ''sending'' \<or> status = JStr ''sent'' \<or>
      status = JStr ''delivered'' \<or> status = JStr ''read'')"

text \<open>Line 480, the \<^verbatim>\<open>disabled\<close> of the send-all button.\<close>

definition send_all_btn_disabled :: "app \<Rightarrow> bool" where
  "send_all_btn_disabled st =
     list_ex (\<lambda>(_, status). status = JStr ''sending'') (messageStatuses_app st)"

text \<open>
  Both buttons are rendered when \<^verbatim>\<open>showDetails && extractedChallans.length > 0\<close>, an
  item's button for each item of the list; a disabled button takes no click.
\<close>

definition click_send :: "config \<Rightarrow> item_env \<Rightarrow> nat \<Rightarrow> app \<Rightarrow> app \<times> effect list" where
  "click_send cfg env index st =
     (if showDetails st \<and> index < length (extractedChallans st) \<and>
         \<not> send_btn_disabled (status_at st index)
      then sendWhatsAppMessage cfg env (mobile (extractedChallans st ! index))
             (data (extractedChallans st ! index)) index st
      else (st, []))"

definition click_send_all ::
  "config \<Rightarrow> bool \<Rightarrow> (nat \<Rightarrow> item_env) \<Rightarrow> app \<Rightarrow> app \<times> effect list" where
  "click_send_all cfg confirmed envs st =
     (if showDetails st \<and> length (extractedChallans st) > 0 \<and> \<not> send_all_btn_disabled st
      then sendAllMessages cfg confirmed envs st
      else (st, []))"

subsection \<open>Preparing a batch\<close>

text \<open>
  \<^verbatim>\<open>handleFileUpload\<close>, as far as the four state variables go (its alerts are left
  out): no file chosen, a file of another extension, a file the reader throws on, or a
  workbook with the challans extracted from it.
\<close>

datatype upload = NoFile | BadExtension | Unreadable | Workbook "challan list"

fun handleFileUpload :: "app \<Rightarrow> upload \<Rightarrow> app" where
  "handleFileUpload st NoFile = st"
| "handleFileUpload st BadExtension = st"
| "handleFileUpload st Unreadable =
     st\<lparr>extractedChallans := [], messageStatuses_app := [], messageIds := []\<rparr>"
| "handleFileUpload st (Workbook extracted) =
     st\<lparr>extractedChallans := extracted, messageStatuses_app := [], messageIds := [],
        showDetails := (if length extracted > 0 then True else showDetails st)\<rparr>"

text \<open>\<^verbatim>\<open>handleReset\<close>\<close>

definition handleReset :: "app \<Rightarrow> app" where
  "handleReset st =
     st\<lparr>extractedChallans := [], messageStatuses_app := [], messageIds := [],
        showDetails := False\<rparr>"

subsection \<open>The client as a whole\<close>



subsection \<open>Runs: the sequencer between its awaits\<close>

text \<open>
  An \<^verbatim>\<open>async\<close> function runs up to its next \<^verbatim>\<open>await\<close> and goes on when the awaited
  promise settles; in between, the page handles whatever else arrives. A run is one call
  of \<^verbatim>\<open>sendWhatsAppMessage\<close> from an item's button (its \<^verbatim>\<open>mobile\<close> and \<^verbatim>\<open>index\<close>), or
  one call of \<^verbatim>\<open>sendAllMessages\<close> in its loop (the challans and the loop's \<open>i\<close>), held
  at an \<^verbatim>\<open>await\<close>: of a request of one mode, or of the \<^verbatim>\<open>setTimeout\<close> of so many
  milliseconds. The functions of this subsection are the pieces of
  \<^verbatim>\<open>sendWhatsAppMessage\<close> and \<^verbatim>\<open>sendAllMessages\<close> between two awaits; each takes the
  state as it is when the piece runs, as the updates \<^verbatim>\<open>prev => ...\<close> do.
\<close>

datatype awaiting = Request send_mode | Timer nat

datatype run =
    Dispatch string nat send_mode
  | Loop "challan list" nat awaiting

text \<open>
  What a run does while it runs: it calls \<^verbatim>\<open>axios.post\<close> (mode, destination), sees the
  request of a mode settled, raises an \<^verbatim>\<open>alert\<close>, asks with \<^verbatim>\<open>confirm\<close>, calls
  \<^verbatim>\<open>setTimeout\<close>, sees the timer fired.
\<close>

datatype occurrence =
    Started send_mode string
  | Ended send_mode
  | Alerted string
  | Asked string
  | TimerSet nat
  | TimerFired

text \<open>
  \<^verbatim>\<open>sendWhatsAppMessage\<close> from its call to its first \<^verbatim>\<open>await\<close> (lines 238 to 247): the
  state it leaves, what it did, and the request it awaits, if it has not returned.
\<close>

definition begin_send ::
  "config \<Rightarrow> string \<Rightarrow> nat \<Rightarrow> app \<Rightarrow> app \<times> occurrence list \<times> send_mode option" where
  "begin_send cfg mobile_no index st =
     (if PHONE_NUMBER_ID cfg = [] \<or> ACCESS_TOKEN cfg = [] then
        (st, [Alerted ''Please configure WhatsApp API credentials in .env file''], None)
      else (set_status st index (JStr ''sending''), [Started Template mobile_no],
            Some Template))"

text \<open>
  \<^verbatim>\<open>sendWhatsAppMessage\<close> from the settling of the request it awaited to its next
  \<^verbatim>\<open>await\<close> or its return: the rest of the \<^verbatim>\<open>try\<close>, and when that throws, the
  \<^verbatim>\<open>catch\<close>, which after the templated request posts the free-text one (line 284) and
  after the free-text one marks the error and alerts (lines 313 and 314).
\<close>

definition resume_send ::
  "send_mode \<Rightarrow> outcome \<Rightarrow> string \<Rightarrow> nat \<Rightarrow> app \<Rightarrow>
   app \<times> occurrence list \<times> send_mode option" where
  "resume_send mode reply mobile_no index st =
     (case try_send reply st index of
        Some st' \<Rightarrow> (st', [], None)
      | None \<Rightarrow>
          (case mode of
             Template \<Rightarrow> (st, [Started Text mobile_no], Some Text)
           | Text \<Rightarrow>
               (set_status st index (JStr ''error''),
                [Alerted (''Failed to send message to '' @ mobile_no @
                          ''. Check console for details.'')],
                None)))"

text \<open>
  The loop of \<^verbatim>\<open>sendAllMessages\<close> after the send of item \<open>i\<close> has returned (lines 339
  to 343): the pacing timer when another item follows, the end of the loop otherwise.
\<close>

definition after_item :: "challan list \<Rightarrow> nat \<Rightarrow> occurrence list \<times> run option" where
  "after_item cs i =
     (if i < length cs - 1 then ([TimerSet 1000], Some (Loop cs i (Timer 1000)))
      else ([], None))"

text \<open>The loop at its head with index \<open>i\<close> (lines 335 to 337).\<close>

definition loop_item ::
  "config \<Rightarrow> challan list \<Rightarrow> nat \<Rightarrow> app \<Rightarrow> app \<times> occurrence list \<times> run option" where
  "loop_item cfg cs i st =
     (if i < length cs then
        (case begin_send cfg (mobile (cs ! i)) i st of
           (st', did, Some mode) \<Rightarrow> (st', did, Some (Loop cs i (Request mode)))
         | (st', did, None) \<Rightarrow>
             (st', did @ fst (after_item cs i), snd (after_item cs i)))
      else (st, [], None))"

text \<open>\<^verbatim>\<open>sendAllMessages\<close> from its call to its first \<^verbatim>\<open>await\<close> (lines 320 to 337).\<close>

definition begin_all ::
  "config \<Rightarrow> bool \<Rightarrow> app \<Rightarrow> app \<times> occurrence list \<times> run option" where
  "begin_all cfg confirmed st =
     (if length (extractedChallans st) = 0 then (st, [Alerted ''No challans to send''], None)
      else if PHONE_NUMBER_ID cfg = [] \<or> ACCESS_TOKEN cfg = [] then
        (st, [Alerted ''Please configure WhatsApp API credentials in .env file''], None)
      else
        let question = Asked (''Send WhatsApp messages to '' @
                              show_nat (length (extractedChallans st)) @ '' numbers?'')
        in if \<not> confirmed then (st, [question], None)
           else (case loop_item cfg (extractedChallans st) 0 st of
                   (st', did, next) \<Rightarrow> (st', question # did, next)))"

text \<open>
  What wakes a run: the request it awaits settles (rejected, or resolved with
  \<^verbatim>\<open>response.data\<close>), or the timer it awaits fires. \<open>resume\<close> is the run from there
  to its next \<^verbatim>\<open>await\<close> or its end; \<open>None\<close> when the run awaits something else.
\<close>

datatype wake = Settles outcome | Fires

fun resume ::
  "config \<Rightarrow> run \<Rightarrow> wake \<Rightarrow> app \<Rightarrow> (app \<times> occurrence list \<times> run option) option" where
  "resume cfg (Dispatch mobile_no index mode) (Settles reply) st =
     Some (case resume_send mode reply mobile_no index st of
             (st', did, Some mode') \<Rightarrow>
               (st', Ended mode # did, Some (Dispatch mobile_no index mode'))
           | (st', did, None) \<Rightarrow> (st', Ended mode # did, None))"
| "resume cfg (Loop cs i (Request mode)) (Settles reply) st =
     Some (case resume_send mode reply (mobile (cs ! i)) i st of
             (st', did, Some mode') \<Rightarrow>
               (st', Ended mode # did, Some (Loop cs i (Request mode')))
           | (st', did, None) \<Rightarrow>
               (st', Ended mode # did @ fst (after_item cs i), snd (after_item cs i)))"
| "resume cfg (Loop cs i (Timer ms)) Fires st =
     Some (case loop_item cfg cs (i + 1) st of
             (st', did, next) \<Rightarrow> (st', TimerFired # did, next))"
| "resume cfg _ _ st = None"

text \<open>
  The page: the state on screen, the runs that are suspended (by a number given to each
  when it starts; with each, the time at which it was suspended, which is the time its
  request or its timer was started), the number for the next run, and the time.
\<close>

record client =
  screen :: app
  tasks :: "nat \<rightharpoonup> run \<times> nat"
  fresh :: nat
  now :: nat

definition idle_client :: "app \<Rightarrow> client" where
  "idle_client st = \<lparr>screen = st, tasks = Map.empty, fresh = 0, now = 0\<rparr>"

text \<open>
  What arrives at the page: a click on an item's send button, a click on the send-all
  button with the operator's answer to its \<^verbatim>\<open>confirm\<close>, the waking of a suspended
  run, a frame on the WebSocket, a file chosen, the file removed.
\<close>

datatype input =
    Press nat
  | PressAll bool
  | Wake nat wake
  | Frame "json option"
  | Choose upload
  | Discard

text \<open>The log of a page: what happened, when, and in which run.\<close>

type_synonym entry = "nat \<times> nat \<times> occurrence"

text \<open>A function called from a click becomes the run of the next number.\<close>

definition spawn ::
  "nat \<Rightarrow> client \<Rightarrow> app \<times> occurrence list \<times> run option \<Rightarrow> client \<times> entry list" where
  "spawn t c r =
     (case r of
        (st', did, next) \<Rightarrow>
          (c\<lparr>screen := st',
             tasks := (case next of
                         None \<Rightarrow> tasks c
                       | Some suspended \<Rightarrow> (tasks c)(fresh c \<mapsto> (suspended, t))),
             fresh := fresh c + 1,
             now := t\<rparr>,
           map (\<lambda>occ. (t, fresh c, occ)) did))"

text \<open>
  The earliest time at which what a run awaits can happen, the run having been
  suspended at time \<open>since\<close>: a request settles no earlier than it was started, a timer
  fires no earlier than its delay after it was set.
\<close>

fun due :: "run \<Rightarrow> nat \<Rightarrow> nat" where
  "due (Loop cs i (Timer ms)) since = since + ms"
| "due _ since = since"

text \<open>
  The page handling one input at time \<open>t\<close>: the page it leaves and what it logged.
  \<open>None\<close> is an input that cannot arrive: one dated before the time of the page, the
  waking of a run that is not suspended or that awaits something else, a waking before
  it is due. The two buttons are as in \<open>click_send\<close> and \<open>click_send_all\<close>.
\<close>

fun step_at :: "config \<Rightarrow> client \<Rightarrow> nat \<times> input \<Rightarrow> (client \<times> entry list) option" where
  "step_at cfg c (t, Press index) =
     (if t < now c then None
      else if showDetails (screen c) \<and> index < length (extractedChallans (screen c)) \<and>
              \<not> send_btn_disabled (status_at (screen c) index)
      then Some (spawn t c
             (case begin_send cfg (mobile (extractedChallans (screen c) ! index)) index
                     (screen c) of
                (st', did, next) \<Rightarrow>
                  (st', did,
                   map_option (Dispatch (mobile (extractedChallans (screen c) ! index)) index)
                     next)))
      else Some (c\<lparr>now := t\<rparr>, []))"
| "step_at cfg c (t, PressAll confirmed) =
     (if t < now c then None
      else if showDetails (screen c) \<and> length (extractedChallans (screen c)) > 0 \<and>
              \<not> send_all_btn_disabled (screen c)
      then Some (spawn t c (begin_all cfg confirmed (screen c)))
      else Some (c\<lparr>now := t\<rparr>, []))"
| "step_at cfg c (t, Wake rid w) =
     (if t < now c then None
      else case tasks c rid of
             None \<Rightarrow> None
           | Some (suspended, since) \<Rightarrow>
               if t < due suspended since then None
               else (case resume cfg suspended w (screen c) of
                       None \<Rightarrow> None
                     | Some (st', did, next) \<Rightarrow>
                         Some (c\<lparr>screen := st',
                                 tasks := (tasks c)(rid := map_option (\<lambda>r. (r, t)) next),
                                 now := t\<rparr>,
                               map (\<lambda>occ. (t, rid, occ)) did)))"
| "step_at cfg c (t, Frame event_data) =
     (if t < now c then None
      else Some (c\<lparr>screen := ws_onmessage (screen c) event_data, now := t\<rparr>, []))"
| "step_at cfg c (t, Choose up) =
     (if t < now c then None
      else Some (c\<lparr>screen := handleFileUpload (screen c) up, now := t\<rparr>, []))"
| "step_at cfg c (t, Discard) =
     (if t < now c then None
      else Some (c\<lparr>screen := handleReset (screen c), now := t\<rparr>, []))"

text \<open>The page handling a sequence of dated inputs, and the whole log.\<close>

fun execute ::
  "config \<Rightarrow> client \<Rightarrow> (nat \<times> input) list \<Rightarrow> (client \<times> entry list) option" where
  "execute cfg c [] = Some (c, [])"
| "execute cfg c (inp # inps) =
     (case step_at cfg c inp of
        None \<Rightarrow> None
      | Some (c', logged) \<Rightarrow>
          (case execute cfg c' inps of
             None \<Rightarrow> None
           | Some (c'', rest) \<Rightarrow> Some (c'', logged @ rest)))"

subsection \<open>Vocabulary of the sequencing properties\<close>

text \<open>What one run did, with the times, in order.\<close>

definition history :: "nat \<Rightarrow> entry list \<Rightarrow> (nat \<times> occurrence) list" where
  "history rid log = map (\<lambda>(t, r, occ). (t, occ)) (filter (\<lambda>(t, r, occ). r = rid) log)"

fun awaits_request :: "run \<Rightarrow> bool" where
  "awaits_request (Dispatch mobile_no index mode) = True"
| "awaits_request (Loop cs i (Request mode)) = True"
| "awaits_request (Loop cs i (Timer ms)) = False"

text \<open>
  Whether a request is in flight after a sequence of occurrences, \<open>b\<close> saying whether
  one was before it; and whether the sequence starts a request only when none is in
  flight and sees one settled only when one is.
\<close>

fun in_flight :: "bool \<Rightarrow> occurrence list \<Rightarrow> bool" where
  "in_flight b [] = b"
| "in_flight b (Started mode to # os) = in_flight True os"
| "in_flight b (Ended mode # os) = in_flight False os"
| "in_flight b (_ # os) = in_flight b os"

fun one_at_a_time :: "bool \<Rightarrow> occurrence list \<Rightarrow> bool" where
  "one_at_a_time b [] = True"
| "one_at_a_time b (Started mode to # os) = (\<not> b \<and> one_at_a_time True os)"
| "one_at_a_time b (Ended mode # os) = (b \<and> one_at_a_time False os)"
| "one_at_a_time b (_ # os) = one_at_a_time b os"

text \<open>The times at which the templated requests of a history were started.\<close>

fun templated_starts :: "(nat \<times> occurrence) list \<Rightarrow> nat list" where
  "templated_starts [] = []"
| "templated_starts ((t, Started Template to) # h) = t # templated_starts h"
| "templated_starts (_ # h) = templated_starts h"

text \<open>
  The state of the suspended runs that every page reached from an idle one is in: the
  numbers of the suspended runs have been given out, and a timer awaited is of at
  least the pacing interval.
\<close>

fun timer_ok :: "run \<Rightarrow> bool" where
  "timer_ok (Loop cs i (Timer ms)) = (1000 \<le> ms)"
| "timer_ok _ = True"

definition tidy :: "client \<Rightarrow> bool" where
  "tidy c = (\<forall>rid suspended since.
               tasks c rid = Some (suspended, since) \<longrightarrow> rid < fresh c \<and> timer_ok suspended)"

definition pending_request :: "run option \<Rightarrow> bool" where
  "pending_request next = (case next of None \<Rightarrow> False | Some r \<Rightarrow> awaits_request r)"

text \<open>What happened on the page, of all runs together, in order.\<close>

definition occurrences :: "entry list \<Rightarrow> occurrence list" where
  "occurrences log = map (\<lambda>(t, rid, occ). occ) log"

text \<open>The times at which the requests of a log, of any mode and any run, were started.\<close>

fun request_starts :: "entry list \<Rightarrow> nat list" where
  "request_starts [] = []"
| "request_starts ((t, rid, Started mode to) # log) = t # request_starts log"
| "request_starts (_ # log) = request_starts log"

subsection \<open>Vocabulary of the dispatch properties\<close>

text \<open>The requests of one mode in a trace.\<close>

fun is_post :: "send_mode \<Rightarrow> effect \<Rightarrow> bool" where
  "is_post mode (Post mode' to ms) = (mode = mode')"
| "is_post mode _ = False"

text \<open>The event names an identifier that the client's mapping holds for some index.\<close>

definition mapped :: "app \<Rightarrow> json \<Rightarrow> nat \<Rightarrow> bool" where
  "mapped st messageId k =
     list_ex (\<lambda>(k', v). k' = k \<and> strict_eq v messageId) (messageIds st)"

definition credentials :: "config \<Rightarrow> bool" where
  "credentials cfg = (PHONE_NUMBER_ID cfg \<noteq> [] \<and> ACCESS_TOKEN cfg \<noteq> [])"


text \<open>The outside treating every item of a batch alike.\<close>

definition for_all_items :: "item_env \<Rightarrow> nat \<Rightarrow> item_env" where
  "for_all_items env i = env"

section \<open>Properties of the status store\<close>

lemma map_of_obj_put: "map_of (obj_put ps k v) = (map_of ps)(k \<mapsto> v)"
  by (induction ps) (auto simp: fun_eq_iff)

lemma keys_obj_put:
  "map fst (obj_put ps k v) = (if k \<in> fst ` set ps then map fst ps else map fst ps @ [k])"
  by (induction ps) force+

lemma distinct_obj_put: "distinct (map fst ps) \<Longrightarrow> distinct (map fst (obj_put ps k v))"
  by (simp add: keys_obj_put)

lemma parsed_not_undefined: "parsed v \<Longrightarrow> v \<noteq> JUndefined"
  by auto

lemma wire_parsed: "parsed v \<Longrightarrow> wire v = v"
proof (induction v)
  case (JArr xs)
  then show ?case by (auto simp: list_all_iff intro!: map_idI dest: parsed_not_undefined)
next
  case (JObj ps)
  have "filter (\<lambda>(k, v). v \<noteq> JUndefined) ps = ps"
    using JObj.prems by (auto simp: list_all_iff filter_id_conv)
  moreover have "map (\<lambda>(k, v). (k, wire v)) ps = ps"
    using JObj by (auto simp: list_all_iff intro!: map_idI)
  ultimately show ?case by simp
qed simp_all

lemma str_keys_iff: "str_keys m = (\<forall>k \<in> fst ` set m. \<exists>i. k = JStr i)"
proof -
  have "is_string k = (\<exists>i. k = JStr i)" for k
    by (cases k) simp_all
  then show ?thesis
    by (auto simp: str_keys_def list_all_iff)
qed

lemma str_keys_Nil: "str_keys []"
  by (simp add: str_keys_def)

lemma keys_map_set:
  "str_keys m \<Longrightarrow>
   map fst (map_set m (JStr i) v) =
     (if JStr i \<in> fst ` set m then map fst m else map fst m @ [JStr i])"
  by (induction m) (force simp: str_keys_iff)+

lemma map_of_map_set:
  "str_keys m \<Longrightarrow> map_of (map_set m (JStr i) v) = (map_of m)(JStr i \<mapsto> v)"
  by (induction m) (auto simp: str_keys_iff fun_eq_iff)

lemma str_keys_map_set: "str_keys m \<Longrightarrow> str_keys (map_set m (JStr i) v)"
  by (induction m) (force simp: str_keys_iff split: if_splits)+

lemma distinct_map_set:
  "str_keys m \<Longrightarrow> distinct (map fst m) \<Longrightarrow> distinct (map fst (map_set m (JStr i) v))"
  by (simp add: keys_map_set)

lemma notification_id: "notification n \<Longrightarrow> \<exists>i. field_of ''id'' n = JStr i"
  by (cases "field_of ''id'' n") (auto simp: notification_def)

lemma status_callback_notification:
  "notification n \<Longrightarrow>
   status_callback s n =
     (s\<lparr>messageStatuses := write_of (messageStatuses s) n,
        wss_clients := broadcastStatusUpdate (wss_clients s)
                         (field_of ''id'' n) (field_of ''status'' n)\<rparr>, None)"
  by (cases n) (auto simp: notification_def status_callback_def write_of_def field_of_def)

lemma forEach_notifications:
  "list_all notification ns \<Longrightarrow>
   snd (forEach status_callback s ns) = None \<and>
   messageStatuses (fst (forEach status_callback s ns)) = foldl write_of (messageStatuses s) ns"
  by (induction ns arbitrary: s) (auto simp: status_callback_notification)

lemma write_of_inv:
  "notification n \<Longrightarrow> str_keys m \<Longrightarrow> distinct (map fst m) \<Longrightarrow>
   str_keys (write_of m n) \<and> distinct (map fst (write_of m n))"
  using notification_id [of n] by (auto simp: write_of_def str_keys_map_set distinct_map_set)

lemma foldl_write_of_inv:
  "list_all notification ns \<Longrightarrow> str_keys m \<Longrightarrow> distinct (map fst m) \<Longrightarrow>
   str_keys (foldl write_of m ns) \<and> distinct (map fst (foldl write_of m ns))"
  by (induction ns arbitrary: m) (auto simp: write_of_inv)

lemma foldl_write_of_lookup:
  "list_all notification ns \<Longrightarrow> str_keys m \<Longrightarrow> distinct (map fst m) \<Longrightarrow>
   map_of (foldl write_of m ns) (JStr i) =
     (case last_written ns i of Some v \<Rightarrow> Some v | None \<Rightarrow> map_of m (JStr i))"
proof (induction ns arbitrary: m)
  case Nil
  then show ?case by simp
next
  case (Cons n ns)
  from Cons.prems have n: "notification n" and ns: "list_all notification ns" by auto
  from notification_id [OF n] obtain j where j: "field_of ''id'' n = JStr j" by blast
  have inv: "str_keys (write_of m n)" "distinct (map fst (write_of m n))"
    using write_of_inv [OF n Cons.prems(2,3)] by auto
  have "map_of (write_of m n) = (map_of m)(JStr j \<mapsto> field_of ''status'' n)"
    using Cons.prems(2) j by (simp add: write_of_def map_of_map_set)
  with Cons.IH [OF ns inv] j show ?case
    by (auto split: option.splits)
qed

lemma map_of_fromEntries:
  "str_keys m \<Longrightarrow> distinct (map fst m) \<Longrightarrow>
   map_of (foldl (\<lambda>ps (k, v). obj_put ps (to_string k) v) acc m) i =
     (case map_of m (JStr i) of Some v \<Rightarrow> Some v | None \<Rightarrow> map_of acc i)"
proof (induction m arbitrary: acc)
  case Nil
  then show ?case by simp
next
  case (Cons e m)
  obtain k v where e: "e = (k, v)" by (cases e)
  from Cons.prems e obtain j where k: "k = JStr j" by (auto simp: str_keys_iff)
  have m: "str_keys m" "distinct (map fst m)"
    using Cons.prems by (auto simp: str_keys_iff)
  have notin: "map_of m (JStr j) = None"
    using Cons.prems(2) e k by (auto simp: map_of_eq_None_iff)
  show ?case
    using Cons.IH [OF m, of "obj_put acc (to_string k) v"] e k notin
    by (auto simp: map_of_obj_put split: option.splits)
qed

lemma distinct_fromEntries:
  "distinct (map fst acc) \<Longrightarrow>
   distinct (map fst (foldl (\<lambda>ps (k, v). obj_put ps (to_string k) v) acc m))"
  by (induction m arbitrary: acc) (auto simp: distinct_obj_put)

lemma map_of_wire_props:
  "distinct (map fst ps) \<Longrightarrow>
   map_of (map (\<lambda>(k, v). (k, wire v)) (filter (\<lambda>(k, v). v \<noteq> JUndefined) ps)) i =
     (case map_of ps i of
        None \<Rightarrow> None
      | Some v \<Rightarrow> if v = JUndefined then None else Some (wire v))"
  by (induction ps) (force simp: map_of_eq_None_iff)+

lemma parsed_field_of: "parsed n \<Longrightarrow> field_of name n = JUndefined \<or> parsed (field_of name n)"
proof (cases n)
  case (JObj ps)
  assume "parsed n"
  with JObj show ?thesis
    by (auto simp: field_of_def list_all_iff split: option.splits dest!: map_of_SomeD)
qed (simp_all add: field_of_def)

lemma last_written_source:
  "last_written ns i = Some v \<Longrightarrow> \<exists>n \<in> set ns. v = field_of ''status'' n"
  by (induction ns) (auto split: option.splits if_splits)

lemma get_prop_wire_obj:
  "distinct (map fst ps) \<Longrightarrow>
   get_prop (wire (JObj ps)) i =
     Inr (case map_of ps i of None \<Rightarrow> JUndefined | Some v \<Rightarrow> wire v)"
  by (simp add: map_of_wire_props split: option.splits)

lemma from_entries_lookup:
  assumes ns: "list_all notification ns"
  shows "map_of (from_entries (foldl write_of [] ns)) i = last_written ns i"
proof -
  have inv: "str_keys (foldl write_of [] ns)" "distinct (map fst (foldl write_of [] ns))"
    using foldl_write_of_inv [OF ns str_keys_Nil] by auto
  show ?thesis
    unfolding from_entries_def
    using map_of_fromEntries [OF inv, of "[]" i] foldl_write_of_lookup [OF ns str_keys_Nil, of i]
    by (auto split: option.splits)
qed

lemma distinct_from_entries: "distinct (map fst (from_entries m))"
  unfolding from_entries_def by (rule distinct_fromEntries) simp

lemma last_written_parsed:
  assumes ns: "list_all notification ns" and v: "last_written ns i = Some v"
  shows "v = JUndefined \<or> parsed v"
proof -
  from last_written_source [OF v] obtain n where n: "n \<in> set ns" "v = field_of ''status'' n"
    by blast
  with ns have "parsed n" by (auto simp: list_all_iff notification_def)
  from parsed_field_of [OF this, of "''status''"] n show ?thesis by simp
qed

text \<open>
  Claim C1. From the empty store of a starting process, after any sequence of status
  notifications (each parsed JSON with a string identifier) has gone through lines 98
  to 109, no write has thrown, and the object \<^verbatim>\<open>/api/statuses\<close> returns maps every
  identifier to the last state written for it; an identifier never written reads
  \<^verbatim>\<open>undefined\<close>.
\<close>

theorem store_last_write_wins:
  assumes empty: "messageStatuses s = []"
    and ns: "list_all notification ns"
  shows "snd (forEach status_callback s ns) = None \<and>
         (\<forall>i. get_prop (api_statuses (fst (forEach status_callback s ns))) i =
               Inr (case last_written ns i of None \<Rightarrow> JUndefined | Some v \<Rightarrow> v))"
proof (intro conjI allI)
  show "snd (forEach status_callback s ns) = None"
    using forEach_notifications [OF ns] by simp
next
  fix i
  have store: "messageStatuses (fst (forEach status_callback s ns)) = foldl write_of [] ns"
    using forEach_notifications [OF ns, of s] empty by simp
  have "get_prop (api_statuses (fst (forEach status_callback s ns))) i =
        Inr (case last_written ns i of None \<Rightarrow> JUndefined | Some v \<Rightarrow> wire v)"
    unfolding api_statuses_def object_fromEntries_def store
    using get_prop_wire_obj [OF distinct_from_entries, of _ i] from_entries_lookup [OF ns, of i]
    by simp
  moreover have "wire v = v" if "last_written ns i = Some v" for v
    using last_written_parsed [OF ns that] by (auto simp: wire_parsed)
  ultimately show "get_prop (api_statuses (fst (forEach status_callback s ns))) i =
               Inr (case last_written ns i of None \<Rightarrow> JUndefined | Some v \<Rightarrow> v)"
    by (auto split: option.splits)
qed

theorem store_last_write_wins_witness:
  "messageStatuses \<lparr>messageStatuses = [], wss_clients = []\<rparr> = [] \<and>
   list_all notification
     [JObj [(''id'', JStr ''wamid.1''), (''status'', JStr ''sent'')],
      JObj [(''id'', JStr ''wamid.2''), (''status'', JStr ''sent'')],
      JObj [(''id'', JStr ''wamid.1''), (''status'', JStr ''delivered'')]] \<and>
   get_prop (api_statuses (fst (forEach status_callback
       \<lparr>messageStatuses = [], wss_clients = []\<rparr>
       [JObj [(''id'', JStr ''wamid.1''), (''status'', JStr ''sent'')],
        JObj [(''id'', JStr ''wamid.2''), (''status'', JStr ''sent'')],
        JObj [(''id'', JStr ''wamid.1''), (''status'', JStr ''delivered'')]])))
     ''wamid.1'' = Inr (JStr ''delivered'')"
proof -
  let ?s = "\<lparr>messageStatuses = [], wss_clients = []\<rparr>"
  let ?ns = "[JObj [(''id'', JStr ''wamid.1''), (''status'', JStr ''sent'')],
      JObj [(''id'', JStr ''wamid.2''), (''status'', JStr ''sent'')],
      JObj [(''id'', JStr ''wamid.1''), (''status'', JStr ''delivered'')]]"
  have e: "messageStatuses ?s = []" by simp
  have n: "list_all notification ?ns" by (simp add: notification_def field_of_def)
  have "get_prop (api_statuses (fst (forEach status_callback ?s ?ns))) ''wamid.1'' =
        Inr (case last_written ?ns ''wamid.1'' of None \<Rightarrow> JUndefined | Some v \<Rightarrow> v)"
    using store_last_write_wins [OF e n] by blast
  then show ?thesis using n by (simp add: field_of_def)
qed

section \<open>Properties of the broadcast channel\<close>

lemma values_map_set:
  "list_all (\<lambda>p. P (snd p)) m \<Longrightarrow> P v \<Longrightarrow> list_all (\<lambda>p. P (snd p)) (map_set m k v)"
  by (induction m) auto

lemma values_obj_put:
  "list_all (\<lambda>p. P (snd p)) ps \<Longrightarrow> P v \<Longrightarrow> list_all (\<lambda>p. P (snd p)) (obj_put ps k v)"
  by (induction ps) auto

lemma values_fromEntries:
  "list_all (\<lambda>p. P (snd p)) acc \<Longrightarrow> list_all (\<lambda>p. P (snd p)) m \<Longrightarrow>
   list_all (\<lambda>p. P (snd p)) (foldl (\<lambda>ps (k, v). obj_put ps (to_string k) v) acc m)"
  by (induction m arbitrary: acc) (auto simp: values_obj_put)

lemma values_from_entries:
  "list_all (\<lambda>p. P (snd p)) m \<Longrightarrow> list_all (\<lambda>p. P (snd p)) (from_entries m)"
  unfolding from_entries_def by (rule values_fromEntries) simp_all

lemma status_record_parsed:
  "status_record n \<Longrightarrow> parsed (field_of ''status'' n)"
  using parsed_field_of [of n "''status''"] by (auto simp: status_record_def notification_def)

lemma values_foldl_write_of:
  "list_all status_record ns \<Longrightarrow> list_all (\<lambda>p. parsed (snd p)) m \<Longrightarrow>
   list_all (\<lambda>p. parsed (snd p)) (foldl write_of m ns)"
  by (induction ns arbitrary: m) (auto simp: write_of_def values_map_set status_record_parsed)

lemma wire_props_parsed:
  assumes "list_all (\<lambda>p. parsed (snd p)) ps"
  shows "map (\<lambda>(k, v). (k, wire v)) (filter (\<lambda>(k, v). v \<noteq> JUndefined) ps) = ps"
proof -
  have "filter (\<lambda>(k, v). v \<noteq> JUndefined) ps = ps"
    using assms by (auto simp: filter_id_conv list_all_iff dest: parsed_not_undefined)
  moreover have "map (\<lambda>(k, v). (k, wire v)) ps = ps"
    using assms by (auto intro!: map_idI simp: wire_parsed list_all_iff)
  ultimately show ?thesis by simp
qed

lemma last_written_ids: "list_all notification ns \<Longrightarrow>
   (last_written ns i \<noteq> None) = (i \<in> set (id_strings ns))"
proof (induction ns)
  case Nil
  then show ?case by simp
next
  case (Cons n ns)
  from Cons.prems have "notification n" by simp
  from notification_id [OF this] obtain j where "field_of ''id'' n = JStr j" by blast
  with Cons show ?case by (auto split: option.splits)
qed

text \<open>
  Claim C2. When an observer connects after a sequence of status notifications (parsed
  JSON, string identifier, state present) has been recorded from the empty store, it is
  added to the observers with exactly one message in its inbox,
  \<^verbatim>\<open>{type: "initial", statuses: {...}}\<close>, whose \<^verbatim>\<open>statuses\<close> object has one property
  for each identifier recorded and no other, each holding the last state written for
  that identifier; the other observers are untouched.
\<close>

theorem snapshot_on_connect:
  assumes empty: "messageStatuses s = []"
    and ns: "list_all status_record ns"
  shows "\<exists>qs. wss_clients (on_connection (fst (forEach status_callback s ns)) h) =
                 wss_clients (fst (forEach status_callback s ns)) @
                 [\<lparr>handle = h, readyState = 1,
                   inbox = [JObj [(''type'', JStr ''initial''), (''statuses'', JObj qs)]]\<rparr>] \<and>
               distinct (map fst qs) \<and>
               set (map fst qs) = set (id_strings ns) \<and>
               (\<forall>i \<in> set (id_strings ns). map_of qs i = last_written ns i)"
proof -
  let ?s1 = "fst (forEach status_callback s ns)"
  let ?qs = "from_entries (foldl write_of [] ns)"
  have nt: "list_all notification ns"
    using ns by (auto simp: list_all_iff status_record_def)
  have store: "messageStatuses ?s1 = foldl write_of [] ns"
    using forEach_notifications [OF nt, of s] empty by simp
  have vals: "list_all (\<lambda>p. parsed (snd p)) ?qs"
    using values_from_entries [OF values_foldl_write_of [OF ns, of "[]"]] by simp
  have w: "wire (JObj ?qs) = JObj ?qs"
    using wire_props_parsed [OF vals] by simp
  have sent: "wss_clients (on_connection ?s1 h) =
        wss_clients ?s1 @
        [\<lparr>handle = h, readyState = 1,
          inbox = [JObj [(''type'', JStr ''initial''), (''statuses'', JObj ?qs)]]\<rparr>]"
    using w by (simp add: on_connection_def ws_send_def object_fromEntries_def store Let_def)
  have look: "map_of ?qs i = last_written ns i" for i
    by (rule from_entries_lookup [OF nt])
  have keys: "set (map fst ?qs) = set (id_strings ns)"
  proof -
    have "(i \<in> fst ` set ?qs) = (i \<in> set (id_strings ns))" for i
      using look [of i] last_written_ids [OF nt, of i]
      by (metis map_of_eq_None_iff)
    then show ?thesis by auto
  qed
  show ?thesis
    using sent distinct_from_entries [of "foldl write_of [] ns"] keys look by blast
qed

theorem snapshot_on_connect_witness:
  "messageStatuses \<lparr>messageStatuses = [], wss_clients = []\<rparr> = [] \<and>
   list_all status_record
     [JObj [(''id'', JStr ''wamid.1''), (''status'', JStr ''sent'')],
      JObj [(''id'', JStr ''wamid.2''), (''status'', JStr ''sent'')],
      JObj [(''id'', JStr ''wamid.1''), (''status'', JStr ''delivered'')]] \<and>
   (\<exists>qs. map inbox (wss_clients (on_connection (fst (forEach status_callback
              \<lparr>messageStatuses = [], wss_clients = []\<rparr>
              [JObj [(''id'', JStr ''wamid.1''), (''status'', JStr ''sent'')],
               JObj [(''id'', JStr ''wamid.2''), (''status'', JStr ''sent'')],
               JObj [(''id'', JStr ''wamid.1''), (''status'', JStr ''delivered'')]])) 7)) =
            [[JObj [(''type'', JStr ''initial''), (''statuses'', JObj qs)]]] \<and>
          length qs = 2 \<and>
          map_of qs ''wamid.1'' = Some (JStr ''delivered'') \<and>
          map_of qs ''wamid.2'' = Some (JStr ''sent''))"
proof -
  let ?s = "\<lparr>messageStatuses = [], wss_clients = []\<rparr>"
  let ?ns = "[JObj [(''id'', JStr ''wamid.1''), (''status'', JStr ''sent'')],
      JObj [(''id'', JStr ''wamid.2''), (''status'', JStr ''sent'')],
      JObj [(''id'', JStr ''wamid.1''), (''status'', JStr ''delivered'')]]"
  have e: "messageStatuses ?s = []" by simp
  have n: "list_all status_record ?ns"
    by (simp add: status_record_def notification_def field_of_def)
  have obs: "wss_clients (fst (forEach status_callback ?s ?ns)) = []"
    by (simp add: status_callback_def broadcastStatusUpdate_def)
  have ids: "id_strings ?ns = [''wamid.1'', ''wamid.2'', ''wamid.1'']"
    by (simp add: field_of_def)
  from snapshot_on_connect [OF e n, of 7] obtain qs where
    qs: "wss_clients (on_connection (fst (forEach status_callback ?s ?ns)) 7) =
           wss_clients (fst (forEach status_callback ?s ?ns)) @
           [\<lparr>handle = 7, readyState = 1,
             inbox = [JObj [(''type'', JStr ''initial''), (''statuses'', JObj qs)]]\<rparr>]"
      "distinct (map fst qs)" "set (map fst qs) = set (id_strings ?ns)"
      "\<forall>i \<in> set (id_strings ?ns). map_of qs i = last_written ?ns i"
    by blast
  have "length qs = card (set (map fst qs))"
    using distinct_card [OF qs(2)] by simp
  also have "\<dots> = card {''wamid.1'', ''wamid.2''}"
    unfolding qs(3) ids by (simp add: insert_commute)
  also have "\<dots> = 2" by simp
  finally have len: "length qs = 2" .
  have l1: "map_of qs ''wamid.1'' = Some (JStr ''delivered'')"
    using qs(4) unfolding ids by (simp add: field_of_def)
  have l2: "map_of qs ''wamid.2'' = Some (JStr ''sent'')"
    using qs(4) unfolding ids by (simp add: field_of_def)
  have mi: "map inbox (wss_clients (on_connection (fst (forEach status_callback ?s ?ns)) 7)) =
        [[JObj [(''type'', JStr ''initial''), (''statuses'', JObj qs)]]]"
    unfolding qs(1) obs by simp
  show ?thesis
    by (intro conjI exI [of _ qs]) (rule e n mi len l1 l2)+
qed

text \<open>
  Claim C3. \<^verbatim>\<open>broadcastStatusUpdate(messageId, status)\<close> keeps the set of observers as
  it is, appends the message \<^verbatim>\<open>{type: "status_update", messageId, status}\<close> to the
  inbox of every observer whose \<^verbatim>\<open>readyState\<close> is 1 (open) and leaves every other
  observer exactly as it was: nothing is queued for it. An observer that closed before
  the broadcast is no longer among the observers the broadcast goes through.
\<close>

theorem broadcast_reaches_open_observers:
  "length (broadcastStatusUpdate cs messageId status) = length cs \<and>
   (\<forall>k < length cs.
      broadcastStatusUpdate cs messageId status ! k =
        (if readyState (cs ! k) = 1
         then (cs ! k)\<lparr>inbox := inbox (cs ! k) @
                [wire (JObj [(''type'', JStr ''status_update''),
                             (''messageId'', messageId), (''status'', status)])]\<rparr>
         else cs ! k)) \<and>
   (\<forall>c \<in> set (broadcastStatusUpdate (wss_clients (on_close s h)) messageId status).
      handle c \<noteq> h)"
  by (auto simp: broadcastStatusUpdate_def ws_send_def on_close_def Let_def)

theorem broadcast_reaches_open_observers_witness:
  "(let cs = [\<lparr>handle = 1, readyState = 1, inbox = []\<rparr>,
              \<lparr>handle = 2, readyState = 2, inbox = []\<rparr>,
              \<lparr>handle = 3, readyState = 1, inbox = []\<rparr>];
        message = JObj [(''type'', JStr ''status_update''),
                        (''messageId'', JStr ''wamid.1''), (''status'', JStr ''delivered'')]
    in (0::nat) < length cs \<and> 1 < length cs \<and> 2 < length cs \<and>
       inbox (broadcastStatusUpdate cs (JStr ''wamid.1'') (JStr ''delivered'') ! 0) = [message] \<and>
       inbox (broadcastStatusUpdate cs (JStr ''wamid.1'') (JStr ''delivered'') ! 1) = [] \<and>
       inbox (broadcastStatusUpdate cs (JStr ''wamid.1'') (JStr ''delivered'') ! 2) = [message] \<and>
       \<lparr>handle = 1, readyState = 1, inbox = [message]\<rparr> \<in>
         set (broadcastStatusUpdate
             (wss_clients (on_close \<lparr>messageStatuses = [], wss_clients = cs\<rparr> 3))
             (JStr ''wamid.1'') (JStr ''delivered'')) \<and>
       handle \<lparr>handle = 1, readyState = 1, inbox = [message]\<rparr> \<noteq> 3)"
proof -
  let ?cs = "[\<lparr>handle = 1, readyState = 1, inbox = []\<rparr>,
              \<lparr>handle = 2, readyState = 2, inbox = []\<rparr>,
              \<lparr>handle = 3, readyState = 1, inbox = []\<rparr>]"
  let ?r = "broadcastStatusUpdate ?cs (JStr ''wamid.1'') (JStr ''delivered'')"
  note t = broadcast_reaches_open_observers [of ?cs "JStr ''wamid.1''" "JStr ''delivered''"
      "\<lparr>messageStatuses = [], wss_clients = ?cs\<rparr>" 3]
  from t have len: "length ?r = 3" by simp
  from t have k: "\<forall>k<3. ?r ! k =
        (if readyState (?cs ! k) = 1
         then (?cs ! k)\<lparr>inbox := inbox (?cs ! k) @
                [wire (JObj [(''type'', JStr ''status_update''),
                             (''messageId'', JStr ''wamid.1''), (''status'', JStr ''delivered'')])]\<rparr>
         else ?cs ! k)"
    by simp
  have r0: "inbox (?r ! 0) = [JObj [(''type'', JStr ''status_update''),
                        (''messageId'', JStr ''wamid.1''), (''status'', JStr ''delivered'')]]"
    using k by simp
  have r1: "inbox (?r ! 1) = []"
    using k by simp
  have r2: "inbox (?r ! 2) = [JObj [(''type'', JStr ''status_update''),
                        (''messageId'', JStr ''wamid.1''), (''status'', JStr ''delivered'')]]"
    using k by simp
  have m: "\<lparr>handle = 1, readyState = 1,
            inbox = [JObj [(''type'', JStr ''status_update''),
                        (''messageId'', JStr ''wamid.1''), (''status'', JStr ''delivered'')]]\<rparr> \<in>
         set (broadcastStatusUpdate
             (wss_clients (on_close \<lparr>messageStatuses = [], wss_clients = ?cs\<rparr> 3))
             (JStr ''wamid.1'') (JStr ''delivered''))"
    by (simp add: broadcastStatusUpdate_def on_close_def ws_send_def)
  with t have c: "handle \<lparr>handle = 1, readyState = 1,
            inbox = [JObj [(''type'', JStr ''status_update''),
                        (''messageId'', JStr ''wamid.1''), (''status'', JStr ''delivered'')]]\<rparr> \<noteq> 3"
    by blast
  show ?thesis unfolding Let_def using r0 r1 r2 m c by simp
qed

section \<open>Properties of callback ingestion\<close>

lemma forEach_message_callback: "forEach message_callback s xs = (s, None)"
  by (induction xs) (auto simp: message_callback_def)

lemma field_of_get_prop: "\<not> nullish v \<Longrightarrow> get_prop v name = Inr (field_of name v)"
  by (cases v) (auto simp: field_of_def)

lemma change_callback_passes: "change_passed_over c \<Longrightarrow> change_callback s c = (s, None)"
proof -
  assume q: "change_passed_over c"
  then have c: "\<not> nullish c" by (simp add: change_passed_over_def)
  show ?thesis
  proof (cases "field_of ''field'' c = JStr ''messages''")
    case False
    with c show ?thesis by (simp add: change_callback_def field_of_get_prop)
  next
    case True
    with q have v: "value_passed_over (field_of ''value'' c)" by (simp add: change_passed_over_def)
    let ?v = "field_of ''value'' c"
    from v have nv: "\<not> nullish ?v" by (simp add: value_passed_over_def)
    have st: "(if truthy (field_of ''statuses'' ?v)
               then call_forEach status_callback s (field_of ''statuses'' ?v) else (s, None)) = (s, None)"
      using v by (auto simp: value_passed_over_def)
    have ms: "(if truthy (field_of ''messages'' ?v)
               then call_forEach message_callback s (field_of ''messages'' ?v) else (s, None)) = (s, None)"
      using v by (cases "field_of ''messages'' ?v") (auto simp: value_passed_over_def forEach_message_callback)
    show ?thesis
      using True c nv st ms by (simp add: change_callback_def field_of_get_prop)
  qed
qed

lemma forEach_change_passed_overs: "list_all change_passed_over cs \<Longrightarrow> forEach change_callback s cs = (s, None)"
  by (induction cs) (auto simp: change_callback_passes)

lemma entry_callback_passes: "entry_passed_over e \<Longrightarrow> entry_callback s e = (s, None)"
  by (cases "field_of ''changes'' e")
     (auto simp: entry_passed_over_def entry_callback_def field_of_get_prop opt_forEach_def
                 forEach_change_passed_overs)

lemma forEach_entries_pass:
  "list_all entry_passed_over es \<Longrightarrow> forEach entry_callback s es = (s, None)"
  by (induction es) (auto simp: entry_callback_passes)

lemma webhook_post_passes:
  "recognized body \<Longrightarrow> envelope_passed_over body \<Longrightarrow> webhook_post s body = (s, event_received)"
  by (cases "field_of ''entry'' body")
     (auto simp: recognized_def envelope_passed_over_def webhook_post_def field_of_get_prop
                 opt_forEach_def forEach_entries_pass event_received_def)

lemma webhook_post_throws:
  "recognized body \<Longrightarrow> snd (opt_forEach entry_callback s (field_of ''entry'' body)) \<noteq> None \<Longrightarrow>
   snd (webhook_post s body) = internal_server_error"
  by (auto simp: recognized_def webhook_post_def field_of_get_prop internal_server_error_def
           split: prod.splits option.splits)

lemma webhook_post_nullish: "nullish body \<Longrightarrow> webhook_post s body = (s, internal_server_error)"
  by (cases body) (auto simp: webhook_post_def internal_server_error_def)

lemma webhook_post_unrecognized:
  "\<not> nullish body \<Longrightarrow> \<not> recognized body \<Longrightarrow> webhook_post s body = (s, not_found)"
  by (auto simp: recognized_def webhook_post_def field_of_get_prop not_found_def)

lemma webhook_post_total:
  "snd (webhook_post s body) \<in> {event_received, not_found, internal_server_error}"
  by (auto simp: webhook_post_def event_received_def not_found_def internal_server_error_def
           split: sum.splits prod.splits option.splits)

text \<open>
  Claim C6 fails on the code. A recognised envelope whose \<^verbatim>\<open>messages\<close> change has no
  \<^verbatim>\<open>value\<close> has no statuses, so the claim has it acknowledged with the success token.
  The handler reads \<^verbatim>\<open>value.statuses\<close> (line 97) on the \<^verbatim>\<open>undefined\<close> value, which
  throws, and answers 500 \<^verbatim>\<open>Internal Server Error\<close>, whatever the server holds. The
  same envelope with an empty object for \<^verbatim>\<open>value\<close> is answered 200
  \<^verbatim>\<open>EVENT_RECEIVED\<close>: \<^verbatim>\<open>entry\<close> and \<^verbatim>\<open>changes\<close> are read with \<^verbatim>\<open>?.\<close>, \<^verbatim>\<open>statuses\<close>
  and \<^verbatim>\<open>messages\<close> are tested before use, \<^verbatim>\<open>value\<close> is not.
\<close>

theorem change_without_value_answered_500:
  "recognized
     (JObj [(''object'', JStr ''whatsapp_business_account''),
            (''entry'', JArr [JObj [(''changes'', JArr
               [JObj [(''field'', JStr ''messages'')]])]])]) \<and>
   field_of ''statuses'' (field_of ''value'' (JObj [(''field'', JStr ''messages'')])) =
     JUndefined \<and>
   webhook_post s
     (JObj [(''object'', JStr ''whatsapp_business_account''),
            (''entry'', JArr [JObj [(''changes'', JArr
               [JObj [(''field'', JStr ''messages'')]])]])]) =
     (s, internal_server_error) \<and>
   webhook_post s
     (JObj [(''object'', JStr ''whatsapp_business_account''),
            (''entry'', JArr [JObj [(''changes'', JArr
               [JObj [(''field'', JStr ''messages''), (''value'', JObj [])]])]])]) =
     (s, event_received)"
  by (simp add: recognized_def field_of_def webhook_post_def opt_forEach_def
        entry_callback_def change_callback_def internal_server_error_def event_received_def)

section \<open>Properties of the reconciler\<close>

lemma map_of_rec_set: "map_of (rec_set r k v) = (map_of r)(k \<mapsto> v)"
  by (induction r) (auto simp: fun_eq_iff)

lemma rec_get_rec_set: "rec_get (rec_set r k v) j = (if j = k then v else rec_get r j)"
  by (simp add: rec_get_def map_of_rec_set)

lemma ws_onmessage_update:
  assumes t: "get_prop message ''type'' = Inr (JStr ''status_update'')"
  shows "(case find (\<lambda>(_, id). strict_eq id (field_of ''messageId'' message)) (messageIds st) of
            None \<Rightarrow> ws_onmessage st (Some message) = st
          | Some (k, v) \<Rightarrow>
              ws_onmessage st (Some message) =
                st\<lparr>messageStatuses_app :=
                     rec_set (messageStatuses_app st) k (field_of ''status'' message)\<rparr>)"
  using t by (auto simp: ws_onmessage_def Let_def split: option.splits)

text \<open>
  Claim C7. On a \<^verbatim>\<open>status_update\<close> event: if some index of the client's mapping holds
  the event's identifier, then there is such an index whose state becomes the event's
  state while the state of every other index stays what it was, and the mapping is
  not touched; if no index holds the identifier, the client's state is left as it is.
\<close>

theorem reconcile_updates_one_index:
  assumes t: "get_prop message ''type'' = Inr (JStr ''status_update'')"
  shows "((\<exists>k. mapped st (field_of ''messageId'' message) k) \<longrightarrow>
            (\<exists>k. mapped st (field_of ''messageId'' message) k \<and>
                 (\<forall>j. rec_get (messageStatuses_app (ws_onmessage st (Some message))) j =
                        (if j = k then field_of ''status'' message
                         else rec_get (messageStatuses_app st) j)) \<and>
                 messageIds (ws_onmessage st (Some message)) = messageIds st)) \<and>
         (\<not> (\<exists>k. mapped st (field_of ''messageId'' message) k) \<longrightarrow>
            ws_onmessage st (Some message) = st)"
proof (intro conjI impI)
  let ?p = "\<lambda>(_, id). strict_eq id (field_of ''messageId'' message)"
  assume "\<exists>k. mapped st (field_of ''messageId'' message) k"
  then have "find ?p (messageIds st) \<noteq> None"
    by (auto simp: mapped_def list_ex_iff find_None_iff)
  then obtain k v where f: "find ?p (messageIds st) = Some (k, v)" by auto
  then have "(k, v) \<in> set (messageIds st) \<and> ?p (k, v)"
    by (metis find_Some_iff nth_mem)
  then have m: "mapped st (field_of ''messageId'' message) k"
    by (auto simp: mapped_def list_ex_iff)
  from ws_onmessage_update [OF t, of st] f
  have "ws_onmessage st (Some message) =
          st\<lparr>messageStatuses_app :=
               rec_set (messageStatuses_app st) k (field_of ''status'' message)\<rparr>"
    by simp
  with m show "\<exists>k. mapped st (field_of ''messageId'' message) k \<and>
                 (\<forall>j. rec_get (messageStatuses_app (ws_onmessage st (Some message))) j =
                        (if j = k then field_of ''status'' message
                         else rec_get (messageStatuses_app st) j)) \<and>
                 messageIds (ws_onmessage st (Some message)) = messageIds st"
    by (auto simp: rec_get_rec_set)
next
  let ?p = "\<lambda>(_, id). strict_eq id (field_of ''messageId'' message)"
  assume "\<not> (\<exists>k. mapped st (field_of ''messageId'' message) k)"
  then have "find ?p (messageIds st) = None"
    by (auto simp: mapped_def list_ex_iff find_None_iff)
  with ws_onmessage_update [OF t, of st] show "ws_onmessage st (Some message) = st"
    by simp
qed

theorem reconcile_updates_one_index_witness:
  "(let st = \<lparr>extractedChallans = [], 
              messageStatuses_app = [(0, JStr ''sent''), (1, JStr ''error''), (2, JStr ''sent'')],
              messageIds = [(0, JStr ''wamid.1''), (2, JStr ''wamid.3'')], showDetails = True\<rparr>;
        known = JObj [(''type'', JStr ''status_update''), (''messageId'', JStr ''wamid.3''),
                      (''status'', JStr ''delivered'')];
        foreign = JObj [(''type'', JStr ''status_update''), (''messageId'', JStr ''wamid.9''),
                        (''status'', JStr ''read'')]
    in get_prop known ''type'' = Inr (JStr ''status_update'') \<and>
       (\<exists>k. mapped st (field_of ''messageId'' known) k) \<and>
       rec_get (messageStatuses_app (ws_onmessage st (Some known))) 2 = JStr ''delivered'' \<and>
       rec_get (messageStatuses_app (ws_onmessage st (Some known))) 0 = JStr ''sent'' \<and>
       rec_get (messageStatuses_app (ws_onmessage st (Some known))) 1 = JStr ''error'' \<and>
       get_prop foreign ''type'' = Inr (JStr ''status_update'') \<and>
       \<not> (\<exists>k. mapped st (field_of ''messageId'' foreign) k) \<and>
       ws_onmessage st (Some foreign) = st)"
proof -
  let ?st = "\<lparr>extractedChallans = [], 
              messageStatuses_app = [(0, JStr ''sent''), (1, JStr ''error''), (2, JStr ''sent'')],
              messageIds = [(0, JStr ''wamid.1''), (2, JStr ''wamid.3'')], showDetails = True\<rparr>"
  let ?known = "JObj [(''type'', JStr ''status_update''), (''messageId'', JStr ''wamid.3''),
                      (''status'', JStr ''delivered'')]"
  let ?foreign = "JObj [(''type'', JStr ''status_update''), (''messageId'', JStr ''wamid.9''),
                        (''status'', JStr ''read'')]"
  have t1: "get_prop ?known ''type'' = Inr (JStr ''status_update'')" by simp
  have t2: "get_prop ?foreign ''type'' = Inr (JStr ''status_update'')" by simp
  have only: "mapped ?st (field_of ''messageId'' ?known) k = (k = 2)" for k
    by (auto simp: mapped_def list_ex_iff field_of_def)
  then have m1: "\<exists>k. mapped ?st (field_of ''messageId'' ?known) k" by blast
  have m2: "\<not> (\<exists>k. mapped ?st (field_of ''messageId'' ?foreign) k)"
    by (auto simp: mapped_def list_ex_iff field_of_def)
  from reconcile_updates_one_index [OF t1, of ?st] m1 only
  have upd: "\<forall>j. rec_get (messageStatuses_app (ws_onmessage ?st (Some ?known))) j =
                 (if j = 2 then field_of ''status'' ?known
                  else rec_get (messageStatuses_app ?st) j)"
    by metis
  have u2: "rec_get (messageStatuses_app (ws_onmessage ?st (Some ?known))) 2 = JStr ''delivered''"
    using upd by (simp add: field_of_def)
  have u0: "rec_get (messageStatuses_app (ws_onmessage ?st (Some ?known))) 0 = JStr ''sent''"
    using upd by (simp add: rec_get_def)
  have u1: "rec_get (messageStatuses_app (ws_onmessage ?st (Some ?known))) 1 = JStr ''error''"
    using upd by (simp add: rec_get_def)
  from reconcile_updates_one_index [OF t2, of ?st] m2
  have same: "ws_onmessage ?st (Some ?foreign) = ?st" by blast
  show ?thesis
    unfolding Let_def by (intro conjI) (rule t1 m1 u2 u0 u1 t2 m2 same)+
qed

lemma ws_onmessage_initial:
  "get_prop message ''type'' = Inr (JStr ''initial'') \<Longrightarrow> ws_onmessage st (Some message) = st"
  by (simp add: ws_onmessage_def)

text \<open>
  Claim C10. A message of type \<^verbatim>\<open>initial\<close> leaves the client's state, and so its map
  of states and its mapping of identifiers, exactly as it was; this holds of the
  snapshot the server sends to a connecting observer, whatever the store holds.
\<close>

theorem initial_snapshot_ignored:
  "(get_prop message ''type'' = Inr (JStr ''initial'') \<longrightarrow>
      ws_onmessage st (Some message) = st) \<and>
   (\<forall>m \<in> set (inbox (last (wss_clients (on_connection s h)))).
      ws_onmessage st (Some m) = st)"
  by (auto simp: ws_onmessage_initial on_connection_def ws_send_def Let_def
        object_fromEntries_def)

theorem initial_snapshot_ignored_witness:
  "(let st = \<lparr>extractedChallans = [], messageStatuses_app = [(0, JStr ''sent'')],
              messageIds = [(0, JStr ''wamid.1'')], showDetails = True\<rparr>;
        s = \<lparr>messageStatuses = [(JStr ''wamid.1'', JStr ''delivered'')], wss_clients = []\<rparr>;
        snapshot = JObj [(''type'', JStr ''initial''),
                         (''statuses'', JObj [(''wamid.1'', JStr ''delivered'')])]
    in get_prop snapshot ''type'' = Inr (JStr ''initial'') \<and>
       snapshot \<in> set (inbox (last (wss_clients (on_connection s 7)))) \<and>
       ws_onmessage st (Some snapshot) = st)"
proof -
  let ?st = "\<lparr>extractedChallans = [], messageStatuses_app = [(0, JStr ''sent'')],
              messageIds = [(0, JStr ''wamid.1'')], showDetails = True\<rparr>"
  let ?s = "\<lparr>messageStatuses = [(JStr ''wamid.1'', JStr ''delivered'')], wss_clients = []\<rparr>"
  let ?snapshot = "JObj [(''type'', JStr ''initial''),
                         (''statuses'', JObj [(''wamid.1'', JStr ''delivered'')])]"
  have t: "get_prop ?snapshot ''type'' = Inr (JStr ''initial'')" by simp
  have i: "?snapshot \<in> set (inbox (last (wss_clients (on_connection ?s 7))))"
    by (simp add: on_connection_def ws_send_def object_fromEntries_def from_entries_def)
  from initial_snapshot_ignored [of ?snapshot ?st ?s 7] i
  have "ws_onmessage ?st (Some ?snapshot) = ?st" by blast
  with t i show ?thesis unfolding Let_def by (intro conjI)
qed


section \<open>Properties of the dispatch sequencer\<close>

lemma try_send_Rejected: "try_send Rejected st i = None"
  by (simp add: try_send_def)

lemma try_send_id:
  "message_id response_data = Inr mid \<Longrightarrow> truthy mid \<Longrightarrow>
   try_send (Accepted response_data) st i = Some (set_status (set_id st i mid) i (JStr ''sent''))"
  by (simp add: try_send_def)

lemma status_at_set_status:
  "truthy v \<Longrightarrow> status_at (set_status st i v) i = v"
  by (simp add: status_at_def set_status_def rec_get_rec_set)

text \<open>
  Claim C4. A dispatch with credentials whose templated request is rejected issues
  exactly one free-text request, to the same destination, right after it. If that
  request is accepted with an identifier in its reply, the identifier is recorded for
  the item, the item shows \<^verbatim>\<open>sent\<close> and nothing else happens. If it is rejected too,
  the item shows \<^verbatim>\<open>error\<close>, the mapping of identifiers is what it was before the
  dispatch, and an alert naming the destination is raised.
\<close>

theorem fallback_law:
  assumes creds: "credentials cfg"
    and failed: "outcome (templated env) = Rejected"
  shows "take 2 (snd (sendWhatsAppMessage cfg env to challanData i st)) =
           [Post Template to (latency (templated env)), Post Text to (latency (freetext env))] \<and>
         length (filter (is_post Text) (snd (sendWhatsAppMessage cfg env to challanData i st))) = 1 \<and>
         (\<forall>response_data mid.
            outcome (freetext env) = Accepted response_data \<and>
            message_id response_data = Inr mid \<and> truthy mid \<longrightarrow>
              status_at (fst (sendWhatsAppMessage cfg env to challanData i st)) i = JStr ''sent'' \<and>
              rec_get (messageIds (fst (sendWhatsAppMessage cfg env to challanData i st))) i = mid \<and>
              snd (sendWhatsAppMessage cfg env to challanData i st) =
                [Post Template to (latency (templated env)),
                 Post Text to (latency (freetext env))]) \<and>
         (outcome (freetext env) = Rejected \<longrightarrow>
            status_at (fst (sendWhatsAppMessage cfg env to challanData i st)) i = JStr ''error'' \<and>
            messageIds (fst (sendWhatsAppMessage cfg env to challanData i st)) = messageIds st \<and>
            snd (sendWhatsAppMessage cfg env to challanData i st) =
              [Post Template to (latency (templated env)),
               Post Text to (latency (freetext env)),
               Alert (''Failed to send message to '' @ to @ ''. Check console for details.'')])"
proof -
  have c: "\<not> (PHONE_NUMBER_ID cfg = [] \<or> ACCESS_TOKEN cfg = [])"
    using creds by (simp add: credentials_def)
  let ?st1 = "set_status st i (JStr ''sending'')"
  have run: "sendWhatsAppMessage cfg env to challanData i st =
      (case try_send (outcome (freetext env)) ?st1 i of
         Some st2 \<Rightarrow> (st2, [Post Template to (latency (templated env)),
                            Post Text to (latency (freetext env))])
       | None \<Rightarrow> (set_status ?st1 i (JStr ''error''),
                   [Post Template to (latency (templated env)),
                    Post Text to (latency (freetext env)),
                    Alert (''Failed to send message to '' @ to @ ''. Check console for details.'')]))"
    using c failed by (simp add: sendWhatsAppMessage_def Let_def try_send_Rejected)
  show ?thesis
  proof (intro conjI allI impI)
    show "take 2 (snd (sendWhatsAppMessage cfg env to challanData i st)) =
           [Post Template to (latency (templated env)), Post Text to (latency (freetext env))]"
      unfolding run by (simp split: option.splits)
  next
    show "length (filter (is_post Text) (snd (sendWhatsAppMessage cfg env to challanData i st))) = 1"
      unfolding run by (simp split: option.splits)
  next
    fix response_data mid
    assume a: "outcome (freetext env) = Accepted response_data \<and>
               message_id response_data = Inr mid \<and> truthy mid"
    then have r: "sendWhatsAppMessage cfg env to challanData i st =
        (set_status (set_id ?st1 i mid) i (JStr ''sent''),
         [Post Template to (latency (templated env)), Post Text to (latency (freetext env))])"
      unfolding run by (simp add: try_send_id)
    show "status_at (fst (sendWhatsAppMessage cfg env to challanData i st)) i = JStr ''sent''"
      unfolding r by (simp add: status_at_set_status)
    show "rec_get (messageIds (fst (sendWhatsAppMessage cfg env to challanData i st))) i = mid"
      unfolding r by (simp add: set_status_def set_id_def rec_get_rec_set)
    show "snd (sendWhatsAppMessage cfg env to challanData i st) =
                [Post Template to (latency (templated env)),
                 Post Text to (latency (freetext env))]"
      unfolding r by simp
  next
    assume a: "outcome (freetext env) = Rejected"
    then have r: "sendWhatsAppMessage cfg env to challanData i st =
        (set_status ?st1 i (JStr ''error''),
         [Post Template to (latency (templated env)), Post Text to (latency (freetext env)),
          Alert (''Failed to send message to '' @ to @ ''. Check console for details.'')])"
      unfolding run by (simp add: try_send_Rejected)
    show "status_at (fst (sendWhatsAppMessage cfg env to challanData i st)) i = JStr ''error''"
      unfolding r by (simp add: status_at_set_status)
    show "messageIds (fst (sendWhatsAppMessage cfg env to challanData i st)) = messageIds st"
      unfolding r by (simp add: set_status_def)
    show "snd (sendWhatsAppMessage cfg env to challanData i st) =
              [Post Template to (latency (templated env)),
               Post Text to (latency (freetext env)),
               Alert (''Failed to send message to '' @ to @ ''. Check console for details.'')]"
      unfolding r by simp
  qed
qed

theorem fallback_law_witness:
  "(let cfg = \<lparr>PHONE_NUMBER_ID = ''1055'', ACCESS_TOKEN = ''token''\<rparr>;
        st = \<lparr>extractedChallans = [], messageStatuses_app = [], messageIds = [],
               showDetails = True\<rparr>;
        reply = JObj [(''messages'', JArr [JObj [(''id'', JStr ''wamid.2x'')]])];
        second = \<lparr>templated = \<lparr>latency = 120, outcome = Rejected\<rparr>,
                  freetext = \<lparr>latency = 80, outcome = Accepted reply\<rparr>, timer_lag = 0\<rparr>;
        third = \<lparr>templated = \<lparr>latency = 120, outcome = Rejected\<rparr>,
                 freetext = \<lparr>latency = 80, outcome = Rejected\<rparr>, timer_lag = 0\<rparr>
    in credentials cfg \<and> outcome (templated second) = Rejected \<and>
       outcome (freetext second) = Accepted reply \<and>
       message_id reply = Inr (JStr ''wamid.2x'') \<and> truthy (JStr ''wamid.2x'') \<and>
       status_at (fst (sendWhatsAppMessage cfg second ''919000000002'' JNull 1 st)) 1 =
         JStr ''sent'' \<and>
       rec_get (messageIds (fst (sendWhatsAppMessage cfg second ''919000000002'' JNull 1 st))) 1 =
         JStr ''wamid.2x'' \<and>
       snd (sendWhatsAppMessage cfg second ''919000000002'' JNull 1 st) =
         [Post Template ''919000000002'' 120, Post Text ''919000000002'' 80] \<and>
       outcome (templated third) = Rejected \<and> outcome (freetext third) = Rejected \<and>
       status_at (fst (sendWhatsAppMessage cfg third ''919000000003'' JNull 2 st)) 2 =
         JStr ''error'' \<and>
       rec_get (messageIds (fst (sendWhatsAppMessage cfg third ''919000000003'' JNull 2 st))) 2 =
         JUndefined \<and>
       snd (sendWhatsAppMessage cfg third ''919000000003'' JNull 2 st) =
         [Post Template ''919000000003'' 120, Post Text ''919000000003'' 80,
          Alert ''Failed to send message to 919000000003. Check console for details.''])"
proof -
  let ?cfg = "\<lparr>PHONE_NUMBER_ID = ''1055'', ACCESS_TOKEN = ''token''\<rparr>"
  let ?st = "\<lparr>extractedChallans = [], messageStatuses_app = [], messageIds = [],
               showDetails = True\<rparr>"
  let ?reply = "JObj [(''messages'', JArr [JObj [(''id'', JStr ''wamid.2x'')]])]"
  let ?second = "\<lparr>templated = \<lparr>latency = 120, outcome = Rejected\<rparr>,
                  freetext = \<lparr>latency = 80, outcome = Accepted ?reply\<rparr>, timer_lag = 0\<rparr>"
  let ?third = "\<lparr>templated = \<lparr>latency = 120, outcome = Rejected\<rparr>,
                 freetext = \<lparr>latency = 80, outcome = Rejected\<rparr>, timer_lag = 0\<rparr>"
  have c: "credentials ?cfg" by (simp add: credentials_def)
  have f2: "outcome (templated ?second) = Rejected" by simp
  have f3: "outcome (templated ?third) = Rejected" by simp
  have a2: "outcome (freetext ?second) = Accepted ?reply" by simp
  have r3: "outcome (freetext ?third) = Rejected" by simp
  have mid: "message_id ?reply = Inr (JStr ''wamid.2x'')" by (simp add: message_id_def)
  have tr: "truthy (JStr ''wamid.2x'')" by simp
  note law2 = fallback_law [OF c f2, of "''919000000002''" JNull 1 ?st]
  note law3 = fallback_law [OF c f3, of "''919000000003''" JNull 2 ?st]
  from law2 a2 mid tr
  have s2: "status_at (fst (sendWhatsAppMessage ?cfg ?second ''919000000002'' JNull 1 ?st)) 1 =
              JStr ''sent'' \<and>
            rec_get (messageIds (fst (sendWhatsAppMessage ?cfg ?second ''919000000002'' JNull 1 ?st))) 1 =
              JStr ''wamid.2x'' \<and>
            snd (sendWhatsAppMessage ?cfg ?second ''919000000002'' JNull 1 ?st) =
              [Post Template ''919000000002'' (latency (templated ?second)),
               Post Text ''919000000002'' (latency (freetext ?second))]"
    by blast
  from law3 r3
  have s3: "status_at (fst (sendWhatsAppMessage ?cfg ?third ''919000000003'' JNull 2 ?st)) 2 =
              JStr ''error'' \<and>
            messageIds (fst (sendWhatsAppMessage ?cfg ?third ''919000000003'' JNull 2 ?st)) =
              messageIds ?st \<and>
            snd (sendWhatsAppMessage ?cfg ?third ''919000000003'' JNull 2 ?st) =
              [Post Template ''919000000003'' (latency (templated ?third)),
               Post Text ''919000000003'' (latency (freetext ?third)),
               Alert (''Failed to send message to '' @ ''919000000003'' @
                      ''. Check console for details.'')]"
    by blast
  have i3: "rec_get (messageIds (fst (sendWhatsAppMessage ?cfg ?third ''919000000003'' JNull 2 ?st))) 2 =
              JUndefined"
    using s3 by (simp add: rec_get_def)
  have t2: "snd (sendWhatsAppMessage ?cfg ?second ''919000000002'' JNull 1 ?st) =
         [Post Template ''919000000002'' 120, Post Text ''919000000002'' 80]"
    using s2 by simp
  have t3: "snd (sendWhatsAppMessage ?cfg ?third ''919000000003'' JNull 2 ?st) =
         [Post Template ''919000000003'' 120, Post Text ''919000000003'' 80,
          Alert ''Failed to send message to 919000000003. Check console for details.'']"
    using s3 by simp
  show ?thesis
    unfolding Let_def
    by (intro conjI)
       (rule c f2 a2 mid tr s2 [THEN conjunct1] s2 [THEN conjunct2, THEN conjunct1] t2 f3 r3
             s3 [THEN conjunct1] i3 t3)+
qed

lemma sendWhatsAppMessage_posts:
  "credentials cfg \<Longrightarrow>
   filter (is_post Template) (snd (sendWhatsAppMessage cfg env to d i st)) =
     [Post Template to (latency (templated env))]"
  by (auto simp: sendWhatsAppMessage_def credentials_def Let_def split: option.splits)

lemma send_loop_posts:
  "credentials cfg \<Longrightarrow>
   filter (is_post Template) (snd (send_loop cfg envs cs i st)) =
     map (\<lambda>j. Post Template (mobile (cs ! j)) (latency (templated (envs j)))) [i..<length cs]"
proof (induction cfg envs cs i st rule: send_loop.induct)
  case (1 cfg envs cs i st)
  show ?case
  proof (cases "i < length cs")
    case False
    then show ?thesis by (simp add: send_loop.simps [of cfg envs cs i st])
  next
    case True
    obtain st1 sent1 where s1:
      "sendWhatsAppMessage cfg (envs i) (mobile (cs ! i)) (data (cs ! i)) i st = (st1, sent1)"
      by (cases "sendWhatsAppMessage cfg (envs i) (mobile (cs ! i)) (data (cs ! i)) i st")
    obtain st2 rest where s2: "send_loop cfg envs cs (i + 1) st1 = (st2, rest)"
      by (cases "send_loop cfg envs cs (i + 1) st1")
    have ih: "filter (is_post Template) rest =
        map (\<lambda>j. Post Template (mobile (cs ! j)) (latency (templated (envs j)))) [i + 1..<length cs]"
      using "1.IH" [OF True s1 [symmetric] "1.prems"] s2 by simp
    have p1: "filter (is_post Template) sent1 =
        [Post Template (mobile (cs ! i)) (latency (templated (envs i)))]"
      using sendWhatsAppMessage_posts [OF "1.prems", of "envs i" "mobile (cs ! i)" "data (cs ! i)" i st] s1
      by simp
    have "snd (send_loop cfg envs cs i st) =
            sent1 @ (if i < length cs - 1 then [Sleep (1000 + timer_lag (envs i))] else []) @ rest"
      using True s1 s2 by (simp add: send_loop.simps [of cfg envs cs i st])
    then show ?thesis
      using p1 ih True by (simp add: upt_conv_Cons)
  qed
qed

lemma click_send_disabled:
  "send_btn_disabled (status_at st i) \<Longrightarrow> click_send cfg env i st = (st, [])"
  by (simp add: click_send_def)

lemma click_send_enabled:
  assumes "status_at st i = JStr ''idle'' \<or> status_at st i = JStr ''error''"
    and "showDetails st" and "i < length (extractedChallans st)" and "credentials cfg"
  shows "filter (is_post Template) (snd (click_send cfg env i st)) =
           [Post Template (mobile (extractedChallans st ! i)) (latency (templated env))]"
proof -
  have "\<not> send_btn_disabled (status_at st i)"
    using assms(1) by (auto simp: send_btn_disabled_def)
  then show ?thesis
    using assms by (simp add: click_send_def sendWhatsAppMessage_posts)
qed

lemma click_send_all_disabled:
  "send_all_btn_disabled st \<Longrightarrow> click_send_all cfg confirmed envs st = (st, [])"
  by (simp add: click_send_all_def)

lemma click_send_all_enabled:
  assumes "showDetails st" and "extractedChallans st \<noteq> []"
    and "\<not> send_all_btn_disabled st" and "credentials cfg"
  shows "filter (is_post Template) (snd (click_send_all cfg True envs st)) =
           map (\<lambda>j. Post Template (mobile (extractedChallans st ! j))
                      (latency (templated (envs j))))
             [0..<length (extractedChallans st)]"
proof -
  obtain st' trace where l: "send_loop cfg envs (extractedChallans st) 0 st = (st', trace)"
    by (cases "send_loop cfg envs (extractedChallans st) 0 st")
  have "snd (click_send_all cfg True envs st) =
          Confirm (''Send WhatsApp messages to '' @
                   show_nat (length (extractedChallans st)) @ '' numbers?'') # trace"
    using assms l by (simp add: click_send_all_def sendAllMessages_def credentials_def Let_def)
  moreover have "filter (is_post Template) trace =
           map (\<lambda>j. Post Template (mobile (extractedChallans st ! j))
                      (latency (templated (envs j))))
             [0..<length (extractedChallans st)]"
    using send_loop_posts [OF assms(4), of envs "extractedChallans st" 0 st] l by simp
  ultimately show ?thesis by simp
qed

text \<open>
  Claim C5, as amended. An item's own send button dispatches nothing while the item
  shows \<^verbatim>\<open>sending\<close>, \<^verbatim>\<open>sent\<close>, \<^verbatim>\<open>delivered\<close> or \<^verbatim>\<open>read\<close>, and dispatches the item
  (one templated request to its destination) when it shows \<^verbatim>\<open>idle\<close> or \<^verbatim>\<open>error\<close>; the
  send-all button dispatches nothing while some item is \<^verbatim>\<open>sending\<close>.
\<close>

theorem dispatch_guards:
  "(status_at st i = JStr ''sending'' \<or> status_at st i = JStr ''sent'' \<or>
    status_at st i = JStr ''delivered'' \<or> status_at st i = JStr ''read'' \<longrightarrow>
      click_send cfg env i st = (st, [])) \<and>
   ((status_at st i = JStr ''idle'' \<or> status_at st i = JStr ''error'') \<and>
    showDetails st \<and> i < length (extractedChallans st) \<and> credentials cfg \<longrightarrow>
      filter (is_post Template) (snd (click_send cfg env i st)) =
        [Post Template (mobile (extractedChallans st ! i)) (latency (templated env))]) \<and>
   (list_ex (\<lambda>(_, status). status = JStr ''sending'') (messageStatuses_app st) \<longrightarrow>
      click_send_all cfg confirmed envs st = (st, []))"
  using click_send_disabled [of st i cfg env] click_send_enabled [of st i cfg env]
    click_send_all_disabled [of st cfg confirmed envs]
  unfolding send_btn_disabled_def send_all_btn_disabled_def
  by blast

lemma show_nat_1: "show_nat (Suc 0) = ''1''"
  by code_simp

text \<open>
  Claim C5 as stated fails for the whole-batch trigger: with the one item of the batch
  showing \<^verbatim>\<open>sent\<close>, a confirmed click on the send-all button sends to it again.
\<close>

theorem batch_redispatches_sent_item:
  "status_at
     \<lparr>extractedChallans = [\<lparr>mobile = ''919000000001'', data = JNull\<rparr>],
      messageStatuses_app = [(0, JStr ''sent'')],
      messageIds = [(0, JStr ''wamid.1'')], showDetails = True\<rparr> 0 = JStr ''sent'' \<and>
   snd (click_send_all \<lparr>PHONE_NUMBER_ID = ''1055'', ACCESS_TOKEN = ''token''\<rparr> True
          (for_all_items
             \<lparr>templated = \<lparr>latency = 120, outcome = Accepted
                  (JObj [(''messages'', JArr [JObj [(''id'', JStr ''wamid.2'')]])])\<rparr>,
              freetext = \<lparr>latency = 80, outcome = Rejected\<rparr>, timer_lag = 0\<rparr>)
          \<lparr>extractedChallans = [\<lparr>mobile = ''919000000001'', data = JNull\<rparr>],
           messageStatuses_app = [(0, JStr ''sent'')],
           messageIds = [(0, JStr ''wamid.1'')], showDetails = True\<rparr>) =
     [Confirm ''Send WhatsApp messages to 1 numbers?'', Post Template ''919000000001'' 120]"
  by (simp add: status_at_def rec_get_def click_send_all_def send_all_btn_disabled_def
        sendAllMessages_def send_loop.simps sendWhatsAppMessage_def try_send_def
        message_id_def set_status_def set_id_def for_all_items_def show_nat_1 Let_def)

theorem dispatch_guards_witness:
  "(let cfg = \<lparr>PHONE_NUMBER_ID = ''1055'', ACCESS_TOKEN = ''token''\<rparr>;
        env = \<lparr>templated = \<lparr>latency = 120, outcome = Accepted
                  (JObj [(''messages'', JArr [JObj [(''id'', JStr ''wamid.9'')]])])\<rparr>,
               freetext = \<lparr>latency = 80, outcome = Rejected\<rparr>, timer_lag = 0\<rparr>;
        batch = [\<lparr>mobile = ''919000000001'', data = JNull\<rparr>,
                 \<lparr>mobile = ''919000000002'', data = JNull\<rparr>];
        st = \<lparr>extractedChallans = batch,
               messageStatuses_app = [(0, JStr ''delivered''), (1, JStr ''error'')],
               messageIds = [(0, JStr ''wamid.1'')], showDetails = True\<rparr>;
        busy = \<lparr>extractedChallans = batch, messageStatuses_app = [(0, JStr ''sending'')],
                 messageIds = [], showDetails = True\<rparr>
    in status_at st 0 = JStr ''delivered'' \<and> click_send cfg env 0 st = (st, []) \<and>
       status_at st 1 = JStr ''error'' \<and> showDetails st \<and>
       1 < length (extractedChallans st) \<and> credentials cfg \<and>
       filter (is_post Template) (snd (click_send cfg env 1 st)) =
         [Post Template ''919000000002'' 120] \<and>
       list_ex (\<lambda>(_, status). status = JStr ''sending'') (messageStatuses_app busy) \<and>
       click_send_all cfg True (for_all_items env) busy = (busy, []))"
proof -
  let ?cfg = "\<lparr>PHONE_NUMBER_ID = ''1055'', ACCESS_TOKEN = ''token''\<rparr>"
  let ?env = "\<lparr>templated = \<lparr>latency = 120, outcome = Accepted
                  (JObj [(''messages'', JArr [JObj [(''id'', JStr ''wamid.9'')]])])\<rparr>,
               freetext = \<lparr>latency = 80, outcome = Rejected\<rparr>, timer_lag = 0\<rparr>"
  let ?batch = "[\<lparr>mobile = ''919000000001'', data = JNull\<rparr>,
                 \<lparr>mobile = ''919000000002'', data = JNull\<rparr>]"
  let ?st = "\<lparr>extractedChallans = ?batch,
               messageStatuses_app = [(0, JStr ''delivered''), (1, JStr ''error'')],
               messageIds = [(0, JStr ''wamid.1'')], showDetails = True\<rparr>"
  let ?busy = "\<lparr>extractedChallans = ?batch, messageStatuses_app = [(0, JStr ''sending'')],
                 messageIds = [], showDetails = True\<rparr>"
  have h1: "status_at ?st 0 = JStr ''delivered''"
    by (simp add: status_at_def rec_get_def)
  have h2: "status_at ?st 1 = JStr ''error''"
    by (simp add: status_at_def rec_get_def)
  have h3: "showDetails ?st" by simp
  have h4: "1 < length (extractedChallans ?st)" by simp
  have h5: "credentials ?cfg" by (simp add: credentials_def)
  have h6: "list_ex (\<lambda>(_, status). status = JStr ''sending'') (messageStatuses_app ?busy)"
    by simp
  note g1 = dispatch_guards [of ?st 0 ?cfg ?env True "for_all_items ?env"]
  note g2 = dispatch_guards [of ?st 1 ?cfg ?env True "for_all_items ?env"]
  note g3 = dispatch_guards [of ?busy 0 ?cfg ?env True "for_all_items ?env"]
  have c1: "click_send ?cfg ?env 0 ?st = (?st, [])"
    using conjunct1 [OF g1] h1 by blast
  have "filter (is_post Template) (snd (click_send ?cfg ?env 1 ?st)) =
        [Post Template (mobile (extractedChallans ?st ! 1)) (latency (templated ?env))]"
    using conjunct1 [OF conjunct2 [OF g2]] h2 h3 h4 h5 by blast
  then have c2: "filter (is_post Template) (snd (click_send ?cfg ?env 1 ?st)) =
         [Post Template ''919000000002'' 120]"
    by simp
  have c3: "click_send_all ?cfg True (for_all_items ?env) ?busy = (?busy, [])"
    using conjunct2 [OF conjunct2 [OF g3]] h6 by (rule mp)
  show ?thesis
    unfolding Let_def by (intro conjI) (rule h1 c1 h2 h3 h4 h5 c2 h6 c3)+
qed








section \<open>Properties of the runs of the sequencer\<close>

text \<open>
  The pieces between the awaits of \<^verbatim>\<open>sendWhatsAppMessage\<close>, run one after the other with
  nothing in between, leave the page in the state that the function run as a whole leaves.
\<close>

lemma sendWhatsAppMessage_in_pieces:
  "fst (sendWhatsAppMessage cfg env to d i st) =
     (case begin_send cfg to i st of
        (st1, did, None) \<Rightarrow> st1
      | (st1, did, Some mode) \<Rightarrow>
          (case resume_send mode (outcome (templated env)) to i st1 of
             (st2, did2, None) \<Rightarrow> st2
           | (st2, did2, Some mode2) \<Rightarrow>
               fst (resume_send mode2 (outcome (freetext env)) to i st2)))"
  by (auto simp: sendWhatsAppMessage_def begin_send_def resume_send_def Let_def
           split: option.splits)

subsection \<open>What the pieces of a run log\<close>

lemma history_append: "history rid (l @ l') = history rid l @ history rid l'"
  by (simp add: history_def)

lemma history_run:
  "history rid (map (\<lambda>occ. (t, r, occ)) occs) = (if r = rid then map (Pair t) occs else [])"
  by (induction occs) (auto simp: history_def)

lemma one_at_a_time_append:
  "one_at_a_time b (xs @ ys) = (one_at_a_time b xs \<and> one_at_a_time (in_flight b xs) ys)"
  by (induction b xs rule: one_at_a_time.induct) auto

lemma in_flight_append: "in_flight b (xs @ ys) = in_flight (in_flight b xs) ys"
  by (induction b xs rule: in_flight.induct) auto

lemma templated_starts_append:
  "templated_starts (h @ h') = templated_starts h @ templated_starts h'"
  by (induction h rule: templated_starts.induct) auto

lemma begin_send_shape:
  assumes "begin_send cfg to i st = (st', occs, next)"
  shows "one_at_a_time False occs \<and> in_flight False occs = (next \<noteq> None) \<and>
         (templated_starts (map (Pair t) occs) = [] \<or>
          templated_starts (map (Pair t) occs) = [t])"
  using assms by (auto simp: begin_send_def split: if_splits)

lemma resume_send_shape:
  assumes "resume_send mode reply to i st = (st', occs, next)"
  shows "one_at_a_time False occs \<and> in_flight False occs = (next \<noteq> None) \<and>
         templated_starts (map (Pair t) occs) = []"
  using assms by (auto simp: resume_send_def split: option.splits send_mode.splits)

lemma after_item_shape:
  "one_at_a_time False (fst (after_item cs i)) \<and>
   in_flight False (fst (after_item cs i)) = pending_request (snd (after_item cs i)) \<and>
   templated_starts (map (Pair t) (fst (after_item cs i))) = [] \<and>
   (\<forall>r. snd (after_item cs i) = Some r \<longrightarrow> timer_ok r)"
  by (simp add: after_item_def pending_request_def)

lemma loop_item_shape:
  assumes "loop_item cfg cs i st = (st', occs, next)"
  shows "one_at_a_time False occs \<and> in_flight False occs = pending_request next \<and>
         (templated_starts (map (Pair t) occs) = [] \<or>
          templated_starts (map (Pair t) occs) = [t]) \<and>
         (\<forall>r. next = Some r \<longrightarrow> timer_ok r)"
proof (cases "i < length cs")
  case False
  with assms show ?thesis by (simp add: loop_item_def pending_request_def)
next
  case True
  obtain st1 occs1 m where b: "begin_send cfg (mobile (cs ! i)) i st = (st1, occs1, m)"
    by (cases "begin_send cfg (mobile (cs ! i)) i st") auto
  note sh = begin_send_shape [OF b, of t]
  show ?thesis
  proof (cases m)
    case (Some mode)
    with assms True b have "occs = occs1" "next = Some (Loop cs i (Request mode))"
      by (simp_all add: loop_item_def)
    with sh Some show ?thesis by (simp add: pending_request_def)
  next
    case None
    with assms True b have e: "occs = occs1 @ fst (after_item cs i)" "next = snd (after_item cs i)"
      by (simp_all add: loop_item_def)
    from sh None have f: "in_flight False occs1 = False" by simp
    show ?thesis
      unfolding e using sh f after_item_shape [of cs i t]
      by (auto simp: one_at_a_time_append in_flight_append templated_starts_append)
  qed
qed

lemma begin_all_shape:
  assumes "begin_all cfg confirmed st = (st', occs, next)"
  shows "one_at_a_time False occs \<and> in_flight False occs = pending_request next \<and>
         (templated_starts (map (Pair t) occs) = [] \<or>
          templated_starts (map (Pair t) occs) = [t]) \<and>
         (\<forall>r. next = Some r \<longrightarrow> timer_ok r)"
proof -
  let ?cs = "extractedChallans st"
  obtain st1 occs1 n1 where l: "loop_item cfg ?cs 0 st = (st1, occs1, n1)"
    by (cases "loop_item cfg ?cs 0 st") auto
  note sh = loop_item_shape [OF l, of t]
  from assms l consider
      (quiet) "next = None" "\<exists>x. occs = [Alerted x] \<or> occs = [Asked x]"
    | (loop) "next = n1" "\<exists>x. occs = Asked x # occs1"
    by (auto simp: begin_all_def Let_def split: if_splits)
  then show ?thesis
  proof cases
    case quiet
    then show ?thesis by (auto simp: pending_request_def)
  next
    case loop
    with sh show ?thesis by auto
  qed
qed

lemma press_shape:
  assumes "begin_send cfg to i st = (st', occs, m)"
  shows "one_at_a_time False occs \<and>
         in_flight False occs = pending_request (map_option (Dispatch to i) m) \<and>
         (templated_starts (map (Pair t) occs) = [] \<or>
          templated_starts (map (Pair t) occs) = [t]) \<and>
         (\<forall>r. map_option (Dispatch to i) m = Some r \<longrightarrow> timer_ok r)"
  using begin_send_shape [OF assms, of t] by (cases m) (auto simp: pending_request_def)

lemma resume_shape:
  assumes "resume cfg r w st = Some (st', occs, next)"
  shows "one_at_a_time (awaits_request r) occs \<and>
         in_flight (awaits_request r) occs = pending_request next \<and>
         (awaits_request r \<longrightarrow> templated_starts (map (Pair t) occs) = []) \<and>
         (templated_starts (map (Pair t) occs) = [] \<or>
          templated_starts (map (Pair t) occs) = [t]) \<and>
         (\<forall>r'. next = Some r' \<longrightarrow> timer_ok r')"
proof (cases "(cfg, r, w, st)" rule: resume.cases)
  case (1 cfg' to i mode reply st0)
  obtain st1 occs1 m where rs: "resume_send mode reply to i st = (st1, occs1, m)"
    by (cases "resume_send mode reply to i st") auto
  from assms 1 rs have e: "occs = Ended mode # occs1" "next = map_option (Dispatch to i) m"
    by (cases m; simp)+
  show ?thesis
    unfolding e using 1 resume_send_shape [OF rs, of t]
    by (cases m) (auto simp: pending_request_def)
next
  case (2 cfg' cs i mode reply st0)
  obtain st1 occs1 m where rs: "resume_send mode reply (mobile (cs ! i)) i st = (st1, occs1, m)"
    by (cases "resume_send mode reply (mobile (cs ! i)) i st") auto
  note sh = resume_send_shape [OF rs, of t]
  show ?thesis
  proof (cases m)
    case (Some mode')
    with assms 2 rs have e: "occs = Ended mode # occs1" "next = Some (Loop cs i (Request mode'))"
      by simp_all
    show ?thesis unfolding e using 2 sh Some by (auto simp: pending_request_def)
  next
    case None
    with assms 2 rs have e: "occs = Ended mode # occs1 @ fst (after_item cs i)"
      "next = snd (after_item cs i)"
      by simp_all
    from sh None have f: "in_flight False occs1 = False" by simp
    show ?thesis
      unfolding e using 2 sh f after_item_shape [of cs i t]
      by (auto simp: one_at_a_time_append in_flight_append templated_starts_append)
  qed
next
  case (3 cfg' cs i ms st0)
  obtain st1 occs1 n1 where l: "loop_item cfg cs (i + 1) st = (st1, occs1, n1)"
    by (cases "loop_item cfg cs (i + 1) st") auto
  from assms 3 l have e: "occs = TimerFired # occs1" "next = n1" by simp_all
  show ?thesis
    unfolding e using 3 loop_item_shape [OF l, of t] by auto
qed (use assms in simp_all)

subsection \<open>One input\<close>

text \<open>What one input does, by the run that acts.\<close>

lemma step_at_cases:
  assumes s: "step_at cfg c (t, inp) = Some (c1, l)"
  obtains
    (nothing) "l = []" "tasks c1 = tasks c" "fresh c1 = fresh c"
  | (spawned) occs "next" where
      "l = map (\<lambda>occ. (t, fresh c, occ)) occs" "fresh c1 = fresh c + 1"
      "tasks c1 = (case next of None \<Rightarrow> tasks c | Some r \<Rightarrow> (tasks c)(fresh c \<mapsto> (r, t)))"
      "one_at_a_time False occs" "in_flight False occs = pending_request next"
      "templated_starts (map (Pair t) occs) = [] \<or> templated_starts (map (Pair t) occs) = [t]"
      "\<forall>r. next = Some r \<longrightarrow> timer_ok r"
  | (woken) rid r since occs "next" where
      "tasks c rid = Some (r, since)" "due r since \<le> t"
      "l = map (\<lambda>occ. (t, rid, occ)) occs" "fresh c1 = fresh c"
      "tasks c1 = (tasks c)(rid := map_option (\<lambda>r. (r, t)) next)"
      "one_at_a_time (awaits_request r) occs"
      "in_flight (awaits_request r) occs = pending_request next"
      "awaits_request r \<longrightarrow> templated_starts (map (Pair t) occs) = []"
      "templated_starts (map (Pair t) occs) = [] \<or> templated_starts (map (Pair t) occs) = [t]"
      "\<forall>r'. next = Some r' \<longrightarrow> timer_ok r'"
proof (cases inp)
  case (Press index)
  let ?to = "mobile (extractedChallans (screen c) ! index)"
  show ?thesis
  proof (cases "showDetails (screen c) \<and> index < length (extractedChallans (screen c)) \<and>
              \<not> send_btn_disabled (status_at (screen c) index)")
    case False
    with s Press have "l = []" "tasks c1 = tasks c" "fresh c1 = fresh c"
      by (auto split: if_splits)
    then show ?thesis by (rule nothing)
  next
    case True
    obtain st1 occs m where b: "begin_send cfg ?to index (screen c) = (st1, occs, m)"
      by (cases "begin_send cfg ?to index (screen c)") auto
    from s Press True b have
      "l = map (\<lambda>occ. (t, fresh c, occ)) occs" "fresh c1 = fresh c + 1"
      "tasks c1 = (case map_option (Dispatch ?to index) m of None \<Rightarrow> tasks c
                   | Some r \<Rightarrow> (tasks c)(fresh c \<mapsto> (r, t)))"
      by (auto simp: spawn_def split: if_splits)
    then show ?thesis
      using press_shape [OF b, of t] by (intro spawned [of occs "map_option (Dispatch ?to index) m"]) auto
  qed
next
  case (PressAll confirmed)
  show ?thesis
  proof (cases "showDetails (screen c) \<and> length (extractedChallans (screen c)) > 0 \<and>
              \<not> send_all_btn_disabled (screen c)")
    case False
    with s PressAll have "l = []" "tasks c1 = tasks c" "fresh c1 = fresh c"
      by (auto split: if_splits)
    then show ?thesis by (rule nothing)
  next
    case True
    obtain st1 occs n1 where b: "begin_all cfg confirmed (screen c) = (st1, occs, n1)"
      by (cases "begin_all cfg confirmed (screen c)") auto
    from s PressAll True b have
      "l = map (\<lambda>occ. (t, fresh c, occ)) occs" "fresh c1 = fresh c + 1"
      "tasks c1 = (case n1 of None \<Rightarrow> tasks c | Some r \<Rightarrow> (tasks c)(fresh c \<mapsto> (r, t)))"
      by (auto simp: spawn_def split: if_splits)
    then show ?thesis
      using begin_all_shape [OF b, of t] by (intro spawned [of occs n1]) auto
  qed
next
  case (Wake rid w)
  from s Wake obtain r since where p: "tasks c rid = Some (r, since)"
    by (auto split: if_splits option.splits)
  from s Wake p have d: "due r since \<le> t"
    by (auto split: if_splits option.splits)
  from s Wake p d obtain st1 occs n1 where
    rs: "resume cfg r w (screen c) = Some (st1, occs, n1)"
    by (auto split: if_splits option.splits)
  from s Wake p d rs have
    "l = map (\<lambda>occ. (t, rid, occ)) occs" "fresh c1 = fresh c"
    "tasks c1 = (tasks c)(rid := map_option (\<lambda>r. (r, t)) n1)"
    by (auto split: if_splits)
  then show ?thesis
    using p d resume_shape [OF rs, of t] by (intro woken [of rid r since occs n1]) auto
next
  case (Frame event_data)
  with s have "l = []" "tasks c1 = tasks c" "fresh c1 = fresh c"
    by (auto split: if_splits)
  then show ?thesis by (rule nothing)
next
  case (Choose up)
  with s have "l = []" "tasks c1 = tasks c" "fresh c1 = fresh c"
    by (auto split: if_splits)
  then show ?thesis by (rule nothing)
next
  case Discard
  with s have "l = []" "tasks c1 = tasks c" "fresh c1 = fresh c"
    by (auto split: if_splits)
  then show ?thesis by (rule nothing)
qed

lemma step_at_tidy:
  assumes s: "step_at cfg c (t, inp) = Some (c1, l)" and inv: "tidy c"
  shows "tidy c1"
  using s
proof (cases rule: step_at_cases)
  case nothing
  with inv show ?thesis by (simp add: tidy_def)
next
  case (spawned occs "next")
  with inv show ?thesis
    by (cases "next") (auto simp: tidy_def less_Suc_eq)
next
  case (woken rid r since occs "next")
  with inv show ?thesis
    by (cases "next") (auto simp: tidy_def)
qed

subsection \<open>The course of each run\<close>

lemma due_ge: "since \<le> due r since"
  by (cases "(r, since)" rule: due.cases) auto

lemma due_timer: "\<not> awaits_request r \<Longrightarrow> timer_ok r \<Longrightarrow> since + 1000 \<le> due r since"
  by (cases "(r, since)" rule: due.cases) auto

lemma map_snd_Pair: "map (snd \<circ> Pair t) occs = occs"
  by (induction occs) auto

lemma execute_courses:
  assumes "execute cfg c ins = Some (c', log)" and "tidy c"
  shows "(\<forall>r since. tasks c rid = Some (r, since) \<longrightarrow>
            one_at_a_time (awaits_request r) (map snd (history rid log)) \<and>
            (\<forall>x \<in> set (templated_starts (history rid log)). since + 1000 \<le> x) \<and>
            sorted_wrt (\<lambda>a b. a + 1000 \<le> b) (templated_starts (history rid log))) \<and>
         (tasks c rid = None \<and> rid < fresh c \<longrightarrow> history rid log = []) \<and>
         (tasks c rid = None \<and> fresh c \<le> rid \<longrightarrow>
            one_at_a_time False (map snd (history rid log)) \<and>
            sorted_wrt (\<lambda>a b. a + 1000 \<le> b) (templated_starts (history rid log)))"
  using assms
proof (induction ins arbitrary: c c' log)
  case Nil
  then show ?case by (simp add: history_def)
next
  case (Cons inp ins)
  obtain t i where inp: "inp = (t, i)" by (cases inp)
  from Cons.prems(1) inp obtain c1 l rest where
    s: "step_at cfg c (t, i) = Some (c1, l)" and
    e: "execute cfg c1 ins = Some (c', rest)" and
    log: "log = l @ rest"
    by (auto split: option.splits)
  have inv1: "tidy c1" by (rule step_at_tidy [OF s Cons.prems(2)])
  note ih = Cons.IH [OF e inv1]
  let ?h = "history rid rest"
  from s show ?case
  proof (cases rule: step_at_cases)
    case nothing
    with ih show ?thesis by (simp add: log history_append history_def)
  next
    case (spawned occs "next")
    show ?thesis
    proof (cases "rid = fresh c")
      case False
      with spawned have same: "tasks c1 rid = tasks c rid" "history rid l = []"
        by (auto simp: history_run split: option.splits)
      from False spawned have "rid < fresh c \<longrightarrow> rid < fresh c1" "fresh c \<le> rid \<longrightarrow> fresh c1 \<le> rid"
        by auto
      with ih same show ?thesis by (simp add: log history_append)
    next
      case True
      with Cons.prems(2) have none: "tasks c rid = None"
        by (cases "tasks c rid") (auto simp: tidy_def)
      from True spawned have hl: "history rid l = map (Pair t) occs"
        by (simp add: history_run)
      show ?thesis
      proof (cases "next")
        case None
        with True spawned none have "tasks c1 rid = None" "rid < fresh c1" by auto
        with ih have "?h = []" by simp
        with none True spawned None show ?thesis
          by (auto simp: log history_append hl history_run map_snd_Pair pending_request_def)
      next
        case (Some r)
        with True spawned have p: "tasks c1 rid = Some (r, t)" by simp
        with ih have f: "one_at_a_time (awaits_request r) (map snd ?h)"
          "\<forall>x \<in> set (templated_starts ?h). t + 1000 \<le> x"
          "sorted_wrt (\<lambda>a b. a + 1000 \<le> b) (templated_starts ?h)"
          by auto
        from spawned Some have g: "in_flight False occs = awaits_request r"
          by (simp add: pending_request_def)
        from none True spawned(1,4,6) f g show ?thesis
          by (auto simp: log history_append hl history_run map_snd_Pair one_at_a_time_append
                templated_starts_append sorted_wrt_append)
      qed
    qed
  next
    case (woken rid0 r since occs "next")
    show ?thesis
    proof (cases "rid = rid0")
      case False
      with woken have same: "tasks c1 rid = tasks c rid" "history rid l = []" "fresh c1 = fresh c"
        by (auto simp: history_run)
      with ih show ?thesis by (simp add: log history_append)
    next
      case True
      from True woken have hl: "history rid l = map (Pair t) occs"
        by (simp add: history_run)
      from True woken Cons.prems(2) have ok: "rid < fresh c" "timer_ok r"
        by (auto simp: tidy_def)
      have lo: "since \<le> t" using woken(2) due_ge [of since r] by simp
      have here: "\<forall>x \<in> set (templated_starts (map (Pair t) occs)). since + 1000 \<le> x"
      proof (cases "awaits_request r")
        case True
        with woken show ?thesis by simp
      next
        case False
        from due_timer [OF False ok(2), of since] woken(2) have "since + 1000 \<le> t" by simp
        with woken(9) show ?thesis by auto
      qed
      show ?thesis
      proof (cases "next")
        case None
        with True woken ok have "tasks c1 rid = None" "rid < fresh c1" by auto
        with ih have "?h = []" by simp
        with True woken(1,3,6,9) here show ?thesis
          by (auto simp: log history_append hl history_run map_snd_Pair)
      next
        case (Some r')
        with True woken have p: "tasks c1 rid = Some (r', t)" by simp
        with ih have f: "one_at_a_time (awaits_request r') (map snd ?h)"
          "\<forall>x \<in> set (templated_starts ?h). t + 1000 \<le> x"
          "sorted_wrt (\<lambda>a b. a + 1000 \<le> b) (templated_starts ?h)"
          by auto
        from woken Some have g: "in_flight (awaits_request r) occs = awaits_request r'"
          by (simp add: pending_request_def)
        from f(2) lo have far: "\<forall>x \<in> set (templated_starts ?h). since + 1000 \<le> x"
          by auto
        from True woken(1,3,6,9) f g here far show ?thesis
          by (auto simp: log history_append hl history_run map_snd_Pair one_at_a_time_append
                templated_starts_append sorted_wrt_append)
      qed
    qed
  qed
qed

lemma step_at_time:
  assumes "step_at cfg c (t, inp) = Some (c1, l)"
  shows "now c \<le> t \<and> now c1 = t \<and> (\<forall>e \<in> set l. fst e = t)"
  using assms
  by (cases inp)
     (auto simp: spawn_def split: if_splits option.splits prod.splits)

lemma same_time_sorted:
  "(\<forall>e \<in> set l. fst e = t) \<Longrightarrow> sorted (map fst l)"
  by (induction l) auto

lemma execute_times:
  assumes "execute cfg c ins = Some (c', log)"
  shows "sorted (map fst log) \<and> (\<forall>e \<in> set log. now c \<le> fst e)"
  using assms
proof (induction ins arbitrary: c c' log)
  case Nil
  then show ?case by simp
next
  case (Cons inp ins)
  obtain t i where inp: "inp = (t, i)" by (cases inp)
  from Cons.prems inp obtain c1 l rest where
    s: "step_at cfg c (t, i) = Some (c1, l)" and
    e: "execute cfg c1 ins = Some (c', rest)" and
    log: "log = l @ rest"
    by (auto split: option.splits)
  note st = step_at_time [OF s]
  note ih = Cons.IH [OF e]
  have "sorted (map fst l)"
    using st by (intro same_time_sorted [of l t]) simp
  with st ih show ?case
    by (auto simp: log sorted_append)
qed

lemma tidy_idle: "tidy (idle_client st)"
  by (simp add: tidy_def idle_client_def)

text \<open>
  Claim C8, as the code has it. In every execution of the page from an idle one, whatever
  the inputs and their order (buttons pressed while a run is suspended, frames, uploads,
  requests settling, timers firing no earlier than they are due), each run, taken alone,
  starts a request only when its previous request has settled, and the templated
  requests of one run are started at least 1000 ms apart: a run of \<^verbatim>\<open>sendAllMessages\<close> sets a timer of 1000 ms when the dispatch of an item has returned
  and starts the next item only when it fires. The free-text request of an item is not
  among the paced ones, and nothing is said of the requests of two different runs.
\<close>

theorem runs_are_sequenced:
  assumes "execute cfg (idle_client st) ins = Some (c, log)"
  shows "one_at_a_time False (map snd (history rid log)) \<and>
         sorted_wrt (\<lambda>a b. a + 1000 \<le> b) (templated_starts (history rid log))"
proof -
  have "tasks (idle_client st) rid = None" "fresh (idle_client st) \<le> rid"
    by (simp_all add: idle_client_def)
  with execute_courses [OF assms tidy_idle, of rid]
  show ?thesis by simp
qed

text \<open>
  Claim C8 as stated fails on the code. In a batch of two, the templated request of the
  first item is rejected at 120 ms and its free-text request is started at that very
  moment, 120 ms after the start before it. While the run waits for its timer, the
  send-all button is enabled (no state is \<^verbatim>\<open>sending\<close>); pressed at 600 ms it starts a second
  run whose request is still in flight when the first run starts its second item at
  1200 ms: two sends at once, started 600 ms apart.
\<close>

theorem second_batch_overlaps_first:
  "map_option snd (execute \<lparr>PHONE_NUMBER_ID = ''1055'', ACCESS_TOKEN = ''token''\<rparr>
     (idle_client \<lparr>extractedChallans = [\<lparr>mobile = ''919000000001'', data = JNull\<rparr>,
                                        \<lparr>mobile = ''919000000002'', data = JNull\<rparr>],
          messageStatuses_app = [], messageIds = [], showDetails = True\<rparr>)
     [(0, PressAll True),
      (120, Wake 0 (Settles Rejected)),
      (200, Wake 0 (Settles (Accepted (JObj [(''messages'', JArr [JObj [(''id'', JStr ''wamid.1'')]])])))),
      (600, PressAll True),
      (1200, Wake 0 Fires)]) =
   Some [(0, 0, Asked ''Send WhatsApp messages to 2 numbers?''),
         (0, 0, Started Template ''919000000001''),
         (120, 0, Ended Template),
         (120, 0, Started Text ''919000000001''),
         (200, 0, Ended Text),
         (200, 0, TimerSet 1000),
         (600, 1, Asked ''Send WhatsApp messages to 2 numbers?''),
         (600, 1, Started Template ''919000000001''),
         (1200, 0, TimerFired),
         (1200, 0, Started Template ''919000000002'')] \<and>
   request_starts
        [(0, 0, Asked ''Send WhatsApp messages to 2 numbers?''),
         (0, 0, Started Template ''919000000001''),
         (120, 0, Ended Template),
         (120, 0, Started Text ''919000000001''),
         (200, 0, Ended Text),
         (200, 0, TimerSet 1000),
         (600, 1, Asked ''Send WhatsApp messages to 2 numbers?''),
         (600, 1, Started Template ''919000000001''),
         (1200, 0, TimerFired),
         (1200, 0, Started Template ''919000000002'')] = [0, 120, 600, 1200] \<and>
   \<not> one_at_a_time False (occurrences
        [(0, 0, Asked ''Send WhatsApp messages to 2 numbers?''),
         (0, 0, Started Template ''919000000001''),
         (120, 0, Ended Template),
         (120, 0, Started Text ''919000000001''),
         (200, 0, Ended Text),
         (200, 0, TimerSet 1000),
         (600, 1, Asked ''Send WhatsApp messages to 2 numbers?''),
         (600, 1, Started Template ''919000000001''),
         (1200, 0, TimerFired),
         (1200, 0, Started Template ''919000000002'')])"
  by code_simp

theorem runs_are_sequenced_witness:
  "map_option snd (execute \<lparr>PHONE_NUMBER_ID = ''1055'', ACCESS_TOKEN = ''token''\<rparr>
     (idle_client \<lparr>extractedChallans = [\<lparr>mobile = ''919000000001'', data = JNull\<rparr>,
                                        \<lparr>mobile = ''919000000002'', data = JNull\<rparr>],
          messageStatuses_app = [], messageIds = [], showDetails = True\<rparr>)
     [(0, PressAll True),
      (120, Wake 0 (Settles Rejected)),
      (200, Wake 0 (Settles (Accepted (JObj [(''messages'', JArr [JObj [(''id'', JStr ''wamid.1'')]])])))),
      (1205, Wake 0 Fires),
      (1300, Wake 0 (Settles (Accepted (JObj [(''messages'', JArr [JObj [(''id'', JStr ''wamid.2'')]])]))))]) =
   Some [(0, 0, Asked ''Send WhatsApp messages to 2 numbers?''),
         (0, 0, Started Template ''919000000001''),
         (120, 0, Ended Template),
         (120, 0, Started Text ''919000000001''),
         (200, 0, Ended Text),
         (200, 0, TimerSet 1000),
         (1205, 0, TimerFired),
         (1205, 0, Started Template ''919000000002''),
         (1300, 0, Ended Template)] \<and>
   one_at_a_time False (map snd (history 0
        [(0, 0, Asked ''Send WhatsApp messages to 2 numbers?''),
         (0, 0, Started Template ''919000000001''),
         (120, 0, Ended Template),
         (120, 0, Started Text ''919000000001''),
         (200, 0, Ended Text),
         (200, 0, TimerSet 1000),
         (1205, 0, TimerFired),
         (1205, 0, Started Template ''919000000002''),
         (1300, 0, Ended Template)])) \<and>
   sorted_wrt (\<lambda>a b. a + 1000 \<le> b) (templated_starts (history 0
        [(0, 0, Asked ''Send WhatsApp messages to 2 numbers?''),
         (0, 0, Started Template ''919000000001''),
         (120, 0, Ended Template),
         (120, 0, Started Text ''919000000001''),
         (200, 0, Ended Text),
         (200, 0, TimerSet 1000),
         (1205, 0, TimerFired),
         (1205, 0, Started Template ''919000000002''),
         (1300, 0, Ended Template)])) \<and>
   templated_starts (history 0
        [(0, 0, Asked ''Send WhatsApp messages to 2 numbers?''),
         (0, 0, Started Template ''919000000001''),
         (120, 0, Ended Template),
         (120, 0, Started Text ''919000000001''),
         (200, 0, Ended Text),
         (200, 0, TimerSet 1000),
         (1205, 0, TimerFired),
         (1205, 0, Started Template ''919000000002''),
         (1300, 0, Ended Template)]) = [0, 1205]"
proof -
  let ?run = "execute \<lparr>PHONE_NUMBER_ID = ''1055'', ACCESS_TOKEN = ''token''\<rparr>
     (idle_client \<lparr>extractedChallans = [\<lparr>mobile = ''919000000001'', data = JNull\<rparr>,
                                        \<lparr>mobile = ''919000000002'', data = JNull\<rparr>],
          messageStatuses_app = [], messageIds = [], showDetails = True\<rparr>)
     [(0, PressAll True),
      (120, Wake 0 (Settles Rejected)),
      (200, Wake 0 (Settles (Accepted (JObj [(''messages'', JArr [JObj [(''id'', JStr ''wamid.1'')]])])))),
      (1205, Wake 0 Fires),
      (1300, Wake 0 (Settles (Accepted (JObj [(''messages'', JArr [JObj [(''id'', JStr ''wamid.2'')]])]))))]"
  let ?log = "[(0, 0, Asked ''Send WhatsApp messages to 2 numbers?''),
         (0, 0, Started Template ''919000000001''),
         (120, 0, Ended Template),
         (120, 0, Started Text ''919000000001''),
         (200, 0, Ended Text),
         (200, 0, TimerSet 1000),
         (1205, 0, TimerFired),
         (1205, 0, Started Template ''919000000002''),
         (1300, 0, Ended Template)]"
  have e: "map_option snd ?run = Some ?log"
    by code_simp
  then obtain c where "?run = Some (c, ?log)"
    by (cases ?run) auto
  note r = runs_are_sequenced [OF this, of 0]
  note b = conjunct1 [OF r]
  note c = conjunct2 [OF r]
  have d: "templated_starts (history 0 ?log) = [0, 1205]"
    by (simp add: history_def)
  show ?thesis
    by (intro conjI) (rule e b c d)+
qed

end
